theory Spec2Isabelle
  imports
    Main
    "HOL-Library.AList"
    "HOL-Library.Sublist"
    "HOL-Library.Char_ord"
    "HOL-Library.List_Lexorder"
    "HOL-Library.Product_Lexorder"
    "HOL-Library.Multiset"
begin

section \<open>Strings\<close>

text \<open>
  A Python \<open>str\<close> is modelled as a \<open>string\<close> whose characters stand for the code
  points below 256. \<open>split_sep\<close> is \<open>s.split('/')\<close>, \<open>join\<close> is
  \<open>sep.join(xs)\<close>, \<open>strip\<close> is \<open>s.strip()\<close> with \<open>str.isspace\<close> restricted to
  that range, \<open>endswith\<close> is \<open>s.endswith(t)\<close>.
\<close>

fun split_sep :: "string \<Rightarrow> string list" where
  "split_sep [] = [[]]"
| "split_sep (c # cs) =
     (if c = CHR ''/'' then [] # split_sep cs
      else (case split_sep cs of [] \<Rightarrow> [[c]] | w # ws \<Rightarrow> (c # w) # ws))"

fun join :: "string \<Rightarrow> string list \<Rightarrow> string" where
  "join sep [] = []"
| "join sep [x] = x"
| "join sep (x # y # ys) = x @ sep @ join sep (y # ys)"

definition isspace :: "char \<Rightarrow> bool" where
  "isspace c = (let n = (of_char c :: nat)
                in (9 \<le> n \<and> n \<le> 13) \<or> (28 \<le> n \<and> n \<le> 32) \<or> n = 133 \<or> n = 160)"

definition strip :: "string \<Rightarrow> string" where
  "strip s = rev (dropWhile isspace (rev (dropWhile isspace s)))"

definition endswith :: "string \<Rightarrow> string \<Rightarrow> bool" where
  "endswith s t = (length t \<le> length s \<and> drop (length s - length t) s = t)"

text \<open>
  \<open>quote\<close> is the text of \<open>'{x}'\<close> in an f-string and of \<open>'%s'\<close>. \<open>repr\<close> is
  \<open>repr(s)\<close> of a \<open>str\<close>: double quotes when the string holds a single quote and
  no double quote, single quotes otherwise; the quote in use and the backslash are
  escaped, tab, newline and carriage return are written \<open>\t\<close>, \<open>\n\<close>, \<open>\r\<close>, and
  every other character that is not printable (below 32, 127 to 160, 173) is
  written \<open>\xhh\<close>.
\<close>

definition quote :: "string \<Rightarrow> string" where
  "quote s = [CHR 0x27] @ s @ [CHR 0x27]"

definition hex_digit :: "nat \<Rightarrow> char" where
  "hex_digit n = ''0123456789abcdef'' ! n"

definition repr_char :: "char \<Rightarrow> char \<Rightarrow> string" where
  "repr_char q c =
     (let n = (of_char c :: nat) in
      if c = q \<or> c = CHR 0x5C then [CHR 0x5C, c]
      else if c = CHR 0x09 then [CHR 0x5C, CHR ''t'']
      else if c = CHR 0x0A then [CHR 0x5C, CHR ''n'']
      else if c = CHR 0x0D then [CHR 0x5C, CHR ''r'']
      else if n < 32 \<or> (127 \<le> n \<and> n \<le> 160) \<or> n = 173
      then [CHR 0x5C, CHR ''x'', hex_digit (n div 16), hex_digit (n mod 16)]
      else [c])"

definition repr :: "string \<Rightarrow> string" where
  "repr s =
     (let q = (if CHR 0x27 \<in> set s \<and> CHR 0x22 \<notin> set s then CHR 0x22 else CHR 0x27)
      in [q] @ concat (map (repr_char q) s) @ [q])"

section \<open>Paths (pathlib)\<close>

text \<open>
  A parsed path keeps its anchor and its components: the parser drops empty
  components and \<open>.\<close>, and keeps \<open>..\<close>. The anchor of a string that starts with
  exactly two slashes is the root \<open>//\<close>, of one that starts with one slash or with
  three and more the root \<open>/\<close>.
\<close>

type_synonym path = "string list"

datatype anchor = Relative | Root | Root2

definition is_abs :: "string \<Rightarrow> bool" where
  "is_abs s = (case s of [] \<Rightarrow> False | c # _ \<Rightarrow> c = CHR ''/'')"

definition leading_slashes :: "string \<Rightarrow> nat" where
  "leading_slashes s = length (takeWhile (\<lambda>c. c = CHR ''/'') s)"

definition anchor_of :: "string \<Rightarrow> anchor" where
  "anchor_of s =
     (if leading_slashes s = 0 then Relative else if leading_slashes s = 2 then Root2 else Root)"

record pure_path =
  anchor :: anchor
  names :: "string list"

definition Path :: "string \<Rightarrow> pure_path" where
  "Path s = \<lparr> anchor = anchor_of s,
             names = filter (\<lambda>c. c \<noteq> [] \<and> c \<noteq> ''.'') (split_sep s) \<rparr>"

definition parts :: "pure_path \<Rightarrow> string list" where
  "parts p =
     (case anchor p of Relative \<Rightarrow> [] | Root \<Rightarrow> [''/''] | Root2 \<Rightarrow> [''//'']) @ names p"

text \<open>
  An absolute path is its root, \<open>//\<close> or \<open>/\<close>, and the list of its components below
  the root. The kernel reads both roots as \<open>/\<close>, so the filesystem calls take the
  components; the root shows in \<open>str\<close> and in comparisons of paths.
\<close>

record abs_path =
  root2 :: bool
  comps :: path

text \<open>\<open>scratch_dir / clean_path\<close>: an anchored right operand replaces the left one.\<close>

definition joinpath :: "abs_path \<Rightarrow> pure_path \<Rightarrow> abs_path" where
  "joinpath d p =
     (case anchor p of
        Relative \<Rightarrow> \<lparr> root2 = root2 d, comps = comps d @ names p \<rparr>
      | Root \<Rightarrow> \<lparr> root2 = False, comps = names p \<rparr>
      | Root2 \<Rightarrow> \<lparr> root2 = True, comps = names p \<rparr>)"

definition parent :: "abs_path \<Rightarrow> abs_path" where
  "parent q = \<lparr> root2 = root2 q, comps = butlast (comps q) \<rparr>"

definition is_relative_to :: "abs_path \<Rightarrow> abs_path \<Rightarrow> bool" where
  "is_relative_to q d = (root2 q = root2 d \<and> prefix (comps d) (comps q))"

definition str_path :: "abs_path \<Rightarrow> string" where
  "str_path q = (if root2 q then ''//'' else ''/'') @ join ''/'' (comps q)"

text \<open>
  The listings work below \<open>scratch_dir\<close> with the components alone: \<open>relative_to\<close>
  is applied to paths that \<open>rglob\<close> and \<open>glob\<close> made from \<open>scratch_dir\<close>.
\<close>

definition relative_to :: "path \<Rightarrow> path \<Rightarrow> path" where
  "relative_to q d = drop (length d) q"

definition str_rel :: "path \<Rightarrow> string" where
  "str_rel r = (if r = [] then ''.'' else join ''/'' r)"

text \<open>
  \<open>with_suffix('')\<close>: the suffix of the last component starts at its last dot, when
  that dot is neither its first nor its last character.
\<close>

definition rfind_dot :: "string \<Rightarrow> nat option" where
  "rfind_dot name =
     (case filter (\<lambda>i. name ! i = CHR ''.'') (rev [0..<length name]) of
        [] \<Rightarrow> None | i # _ \<Rightarrow> Some i)"

definition stem :: "string \<Rightarrow> string" where
  "stem name =
     (case rfind_dot name of
        None \<Rightarrow> name
      | Some i \<Rightarrow> if 0 < i \<and> i < length name - 1 then take i name else name)"

definition with_suffix_empty :: "path \<Rightarrow> path" where
  "with_suffix_empty r = (if r = [] then r else butlast r @ [stem (last r)])"

section \<open>The filesystem\<close>

text \<open>
  The state is the whole POSIX file tree below \<open>/\<close>: a file holds its text, a
  directory its entries in the order \<open>scandir\<close> reports them (the first binding of a
  name is the entry), a symbolic link its target string. Permissions, quotas, name
  and path length limits, the recursion limit of the interpreter and devices are
  not part of the state, so the failures they cause do not occur.
\<close>

datatype node = File string | Dir "(string \<times> node) list" | Symlink string

text \<open>\<open>lookup\<close> is \<open>lstat\<close> along directories only: no link is followed.\<close>

fun lookup :: "node \<Rightarrow> path \<Rightarrow> node option" where
  "lookup n [] = Some n"
| "lookup (Dir es) (c # cs) = (case map_of es c of None \<Rightarrow> None | Some m \<Rightarrow> lookup m cs)"
| "lookup (File _) (c # cs) = None"
| "lookup (Symlink _) (c # cs) = None"

text \<open>What \<open>lstat\<close> reports of an entry: its kind, with the text or the target.\<close>

datatype st = Reg string | Directory | Lnk string

fun st_of :: "node \<Rightarrow> st" where
  "st_of (File c) = Reg c"
| "st_of (Dir es) = Directory"
| "st_of (Symlink t) = Lnk t"

definition lstat :: "node \<Rightarrow> path \<Rightarrow> st option" where
  "lstat fs q = map_option st_of (lookup fs q)"

definition readlink :: "node \<Rightarrow> path \<Rightarrow> string option" where
  "readlink fs q = (case lstat fs q of Some (Lnk t) \<Rightarrow> Some t | _ \<Rightarrow> None)"

definition is_directory :: "node \<Rightarrow> path \<Rightarrow> bool" where
  "is_directory fs q = (lstat fs q = Some Directory)"

text \<open>
  The kernel's path walk: every component before the last must be a directory,
  \<open>..\<close> is the parent of the directory reached, and a link is followed, at most 40
  times (Linux); the result is the link-free path of the object. With \<open>creat\<close>
  (\<open>open\<close> with \<open>O_CREAT\<close>) a missing last component is accepted and its path
  returned; a missing component followed by slashes only is refused as a directory.
\<close>

datatype errno = ENOENT | EBUSY | EEXIST | ENOTDIR | EISDIR | EINVAL | ENOTEMPTY | ELOOP

fun walk :: "node \<Rightarrow> bool \<Rightarrow> nat \<Rightarrow> path \<Rightarrow> string list \<Rightarrow> errno + path" where
  "walk fs creat n cur [] = Inr cur"
| "walk fs creat n cur (name # rest) =
     (if \<not> is_directory fs cur then Inl (if lstat fs cur = None then ENOENT else ENOTDIR)
      else if name = [] \<or> name = ''.'' then walk fs creat n cur rest
      else if name = ''..'' then walk fs creat n (butlast cur) rest
      else (case lstat fs (cur @ [name]) of
              None \<Rightarrow>
                if creat \<and> rest = [] then Inr (cur @ [name])
                else if creat \<and> set rest \<subseteq> {[]} then Inl EISDIR
                else Inl ENOENT
            | Some (Lnk t) \<Rightarrow>
                (case n of
                   0 \<Rightarrow> Inl ELOOP
                 | Suc m \<Rightarrow> walk fs creat m (if is_abs t then [] else cur) (split_sep t @ rest))
            | Some _ \<Rightarrow> walk fs creat n (cur @ [name]) rest))"

definition stat :: "node \<Rightarrow> path \<Rightarrow> errno + st" where
  "stat fs q =
     (case walk fs False 40 [] q of
        Inl e \<Rightarrow> Inl e
      | Inr r \<Rightarrow> (case lstat fs r of None \<Rightarrow> Inl ENOENT | Some s \<Rightarrow> Inr s))"

text \<open>\<open>Path.exists\<close>, \<open>is_file\<close>, \<open>is_dir\<close>: \<open>stat\<close>, every error of it read as False.\<close>

definition exists :: "node \<Rightarrow> path \<Rightarrow> bool" where
  "exists fs q = (case stat fs q of Inr _ \<Rightarrow> True | Inl _ \<Rightarrow> False)"

definition is_file :: "node \<Rightarrow> path \<Rightarrow> bool" where
  "is_file fs q = (case stat fs q of Inr (Reg _) \<Rightarrow> True | _ \<Rightarrow> False)"

definition is_dir :: "node \<Rightarrow> path \<Rightarrow> bool" where
  "is_dir fs q = (case stat fs q of Inr Directory \<Rightarrow> True | _ \<Rightarrow> False)"

section \<open>Exceptions\<close>

text \<open>
  What the calls raise, each a subclass of \<open>Exception\<close>: \<open>OSError\<close> carries its
  error number and the text after the colon, the \<open>repr\<close> of the file name or names
  the call was given; \<open>Error\<close> stands for \<open>shutil.Error\<close> and for an \<open>OSError\<close>
  raised with a text alone. \<open>str_exn\<close> is \<open>str(e)\<close>.
\<close>

datatype exn =
    ValueError string
  | RuntimeError string
  | OSError errno string
  | Error string

fun strerror :: "errno \<Rightarrow> string" where
  "strerror ENOENT = ''[Errno 2] No such file or directory''"
| "strerror EBUSY = ''[Errno 16] Device or resource busy''"
| "strerror EEXIST = ''[Errno 17] File exists''"
| "strerror ENOTDIR = ''[Errno 20] Not a directory''"
| "strerror EISDIR = ''[Errno 21] Is a directory''"
| "strerror EINVAL = ''[Errno 22] Invalid argument''"
| "strerror ENOTEMPTY = ''[Errno 39] Directory not empty''"
| "strerror ELOOP = ''[Errno 40] Too many levels of symbolic links''"

fun str_exn :: "exn \<Rightarrow> string" where
  "str_exn (ValueError m) = m"
| "str_exn (RuntimeError m) = m"
| "str_exn (OSError e f) = strerror e @ '': '' @ f"
| "str_exn (Error m) = m"

definition oserror :: "errno \<Rightarrow> abs_path \<Rightarrow> exn" where
  "oserror e q = OSError e (repr (str_path q))"

section \<open>Path.resolve\<close>

text \<open>
  \<open>Path.resolve()\<close> (Python 3.10 to 3.12) is \<open>os.path.realpath\<close> in its non-strict
  mode, followed by one \<open>stat\<close>. \<open>realpath\<close> walks the components of the absolute
  path from \<open>/\<close>, skips empty components and \<open>.\<close>, drops the last resolved component
  at \<open>..\<close> (staying at \<open>/\<close> there), appends a component that is not a link whether
  or not it exists, and resolves a link by walking its target first. \<open>seen\<close> maps a
  link to \<open>None\<close> while its target is being resolved and to the resolved path
  afterwards. The pending components are kept on a stack, where \<open>Done l\<close> closes
  the resolution of the link \<open>l\<close>. A component with a NUL character makes \<open>lstat\<close>
  raise ValueError.

  A link met again while its own target is being resolved is a symlink loop. There
  \<open>realpath\<close> gives up: it returns the path of the link joined with the components
  still pending at this level, and each enclosing level joins its own pending
  components to that (\<open>unwind\<close>, with \<open>os.path.join\<close>, where an operand that starts
  with a slash replaces what came before). \<open>os.path.abspath\<close> then normalises the
  string without looking at the file tree.
\<close>

datatype frame = Part string | Done path

datatype realpath = Resolved path | Unresolved string

definition posix_join :: "string \<Rightarrow> string \<Rightarrow> string" where
  "posix_join a b =
     (if is_abs b then b
      else if a = [] \<or> last a = CHR ''/'' then a @ b
      else a @ ''/'' @ b)"

fun unwind :: "string \<Rightarrow> string list \<Rightarrow> frame list \<Rightarrow> string" where
  "unwind s pending [] = posix_join s (join ''/'' pending)"
| "unwind s pending (Part name # stack) = unwind s (pending @ [name]) stack"
| "unwind s pending (Done l # stack) = unwind (posix_join s (join ''/'' pending)) [] stack"

text \<open>
  \<open>os.path.normpath\<close> of an absolute string, as its components: empty components
  and \<open>.\<close> go, \<open>..\<close> removes the component before it and goes itself at the root.
  \<open>abs_of_string\<close> is \<open>Path(os.path.abspath(s))\<close> for an absolute string \<open>s\<close>:
  exactly two leading slashes are kept as the root \<open>//\<close>.
\<close>

fun normpath_comps :: "string list \<Rightarrow> string list \<Rightarrow> string list" where
  "normpath_comps new_comps [] = new_comps"
| "normpath_comps new_comps (c # rest) =
     (if c = [] \<or> c = ''.'' then normpath_comps new_comps rest
      else if c = ''..'' then normpath_comps (butlast new_comps) rest
      else normpath_comps (new_comps @ [c]) rest)"

definition abs_of_string :: "string \<Rightarrow> abs_path" where
  "abs_of_string s =
     \<lparr> root2 = (leading_slashes s = 2), comps = normpath_comps [] (split_sep s) \<rparr>"

fun all_paths :: "node \<Rightarrow> path list" where
  "all_paths (Dir es) = [] # concat (map (\<lambda>(name, n). map ((#) name) (all_paths n)) es)"
| "all_paths (File _) = [[]]"
| "all_paths (Symlink _) = [[]]"

lemma nil_all_paths: "[] \<in> set (all_paths n)"
  by (cases n) auto

lemma lookup_all_paths: "lookup n q = Some m \<Longrightarrow> q \<in> set (all_paths n)"
proof (induction n q rule: lookup.induct)
  case (2 es c cs)
  then obtain k where k: "map_of es c = Some k" and l: "lookup k cs = Some m"
    by (auto split: option.splits)
  from k have mem: "(c, k) \<in> set es" by (rule map_of_SomeD)
  from 2 k l have "cs \<in> set (all_paths k)" by simp
  with mem show ?case by force
qed (auto intro: nil_all_paths)

lemma readlink_all_paths: "readlink fs q = Some t \<Longrightarrow> q \<in> set (all_paths fs)"
  by (auto simp: readlink_def lstat_def split: option.splits st.splits dest: lookup_all_paths)

lemma card_diff_insert_le: "card (set xs - insert l D) \<le> card (set xs - D)"
  by (rule card_mono) auto

lemma card_diff_insert_less:
  assumes "l \<in> set xs" and "l \<notin> D"
  shows "card (set xs - insert l D) < card (set xs - D)"
  by (rule psubset_card_mono) (use assms in auto)

function realpath_loop ::
  "node \<Rightarrow> (path \<rightharpoonup> path option) \<Rightarrow> path \<Rightarrow> frame list \<Rightarrow> exn + realpath" where
  "realpath_loop fs seen path [] = Inr (Resolved path)"
| "realpath_loop fs seen path (Done l # rest) =
     realpath_loop fs (seen(l \<mapsto> Some path)) path rest"
| "realpath_loop fs seen path (Part name # rest) =
     (if name = [] \<or> name = ''.'' then realpath_loop fs seen path rest
      else if name = ''..'' then realpath_loop fs seen (butlast path) rest
      else if CHR 0x00 \<in> set name then Inl (ValueError ''embedded null byte'')
      else (case readlink fs (path @ [name]) of
              None \<Rightarrow> realpath_loop fs seen (path @ [name]) rest
            | Some target \<Rightarrow>
                (case seen (path @ [name]) of
                   Some (Some cached) \<Rightarrow> realpath_loop fs seen cached rest
                 | Some None \<Rightarrow>
                     Inr (Unresolved (unwind (CHR ''/'' # join ''/'' (path @ [name])) [] rest))
                 | None \<Rightarrow>
                     realpath_loop fs (seen(path @ [name] \<mapsto> None))
                       (if is_abs target then [] else path)
                       (map Part (split_sep target) @ Done (path @ [name]) # rest))))"
  by pat_completeness auto
termination
proof (relation "(\<lambda>(fs, seen, path, stack). card (set (all_paths fs) - dom seen)) <*mlex*>
                 measure (\<lambda>(fs, seen, path, stack). length stack)", goal_cases)
  case 1
  show ?case by (simp add: wf_mlex)
next
  case 2
  show ?case by (auto intro!: mlex_leq card_diff_insert_le)
next
  case 3
  then show ?case by (auto intro!: mlex_leq)
next
  case 4
  then show ?case by (auto intro!: mlex_leq)
next
  case 5
  then show ?case by (auto intro!: mlex_leq)
next
  case 6
  then show ?case
    by (auto intro!: mlex_less card_diff_insert_less dest: readlink_all_paths)
next
  case 7
  then show ?case by (auto intro!: mlex_leq)
qed

text \<open>
  \<open>resolve\<close> makes the path of what \<open>realpath\<close> returned and calls \<open>stat\<close> on it
  once: the error ELOOP of that call is raised as RuntimeError, a NUL character
  in the path as ValueError, and every other outcome of the call is ignored. So
  after a symlink loop the path comes back unresolved whenever its normalised
  form does not run into the loop again.
\<close>

definition resolve :: "node \<Rightarrow> abs_path \<Rightarrow> exn + abs_path" where
  "resolve fs q =
     (case realpath_loop fs Map.empty [] (map Part (comps q)) of
        Inl e \<Rightarrow> Inl e
      | Inr r \<Rightarrow>
          (let p = (case r of
                      Resolved path \<Rightarrow> \<lparr> root2 = False, comps = path \<rparr>
                    | Unresolved s \<Rightarrow> abs_of_string s)
           in if \<exists>name \<in> set (comps p). CHR 0x00 \<in> set name
              then Inl (ValueError ''embedded null byte'')
              else (case stat fs (comps p) of
                      Inl ELOOP \<Rightarrow> Inl (RuntimeError (''Symlink loop from '' @ repr (str_path p)))
                    | _ \<Rightarrow> Inr p)))"

section \<open>Filesystem calls\<close>

text \<open>
  The calls of the kernel take the components of a path and report an error
  number. They are applied to paths whose last component is a name (not empty,
  \<open>.\<close> or \<open>..\<close>), as \<open>resolve\<close> returns them: the directory of the last component is
  found by the kernel's walk, and the last component itself is not followed.
\<close>

fun put :: "node \<Rightarrow> path \<Rightarrow> node \<Rightarrow> node" where
  "put n [] m = m"
| "put (Dir es) (c # cs) m =
     Dir (case map_of es c of
            None \<Rightarrow> (if cs = [] then es @ [(c, m)] else es)
          | Some child \<Rightarrow> AList.update c (put child cs m) es)"
| "put (File x) (c # cs) m = File x"
| "put (Symlink x) (c # cs) m = Symlink x"

fun remove :: "node \<Rightarrow> path \<Rightarrow> node" where
  "remove n [] = n"
| "remove (Dir es) (c # cs) =
     Dir (if cs = [] then AList.delete c es
          else (case map_of es c of
                  None \<Rightarrow> es
                | Some child \<Rightarrow> AList.update c (remove child cs) es))"
| "remove (File x) (c # cs) = File x"
| "remove (Symlink x) (c # cs) = Symlink x"

definition namei_parent :: "node \<Rightarrow> path \<Rightarrow> errno + path" where
  "namei_parent fs q =
     (case walk fs False 40 [] (butlast q) of
        Inl e \<Rightarrow> Inl e
      | Inr d \<Rightarrow> if is_directory fs d then Inr (d @ [last q]) else Inl ENOTDIR)"

definition os_mkdir :: "node \<Rightarrow> path \<Rightarrow> errno + node" where
  "os_mkdir fs q =
     (if q = [] then Inl EEXIST
      else (case namei_parent fs q of
              Inl e \<Rightarrow> Inl e
            | Inr r \<Rightarrow>
                (case lstat fs r of
                   None \<Rightarrow> Inr (put fs r (Dir []))
                 | Some _ \<Rightarrow> Inl EEXIST)))"

definition os_symlink :: "node \<Rightarrow> string \<Rightarrow> path \<Rightarrow> errno + node" where
  "os_symlink fs target q =
     (if q = [] then Inl EEXIST
      else (case namei_parent fs q of
              Inl e \<Rightarrow> Inl e
            | Inr r \<Rightarrow>
                (case lstat fs r of
                   None \<Rightarrow> Inr (put fs r (Symlink target))
                 | Some _ \<Rightarrow> Inl EEXIST)))"

definition os_unlink :: "node \<Rightarrow> path \<Rightarrow> errno + node" where
  "os_unlink fs q =
     (if q = [] then Inl EISDIR
      else (case namei_parent fs q of
              Inl e \<Rightarrow> Inl e
            | Inr r \<Rightarrow>
                (case lstat fs r of
                   None \<Rightarrow> Inl ENOENT
                 | Some Directory \<Rightarrow> Inl EISDIR
                 | Some _ \<Rightarrow> Inr (remove fs r))))"

text \<open>\<open>os.rename\<close> on one device.\<close>

definition os_rename :: "node \<Rightarrow> path \<Rightarrow> path \<Rightarrow> errno + node" where
  "os_rename fs src dst =
     (if src = [] \<or> dst = [] then Inl EBUSY
      else (case namei_parent fs src of
              Inl e \<Rightarrow> Inl e
            | Inr rs \<Rightarrow>
                (case lookup fs rs of
                   None \<Rightarrow> Inl ENOENT
                 | Some n \<Rightarrow>
                     (case namei_parent fs dst of
                        Inl e \<Rightarrow> Inl e
                      | Inr rd \<Rightarrow>
                          if rs = rd then Inr fs
                          else if prefix rs rd then Inl EINVAL
                          else if prefix rd rs then Inl ENOTEMPTY
                          else (case lstat fs rd of
                                  None \<Rightarrow> Inr (put (remove fs rs) rd n)
                                | Some Directory \<Rightarrow>
                                    if st_of n \<noteq> Directory then Inl EISDIR
                                    else if lookup fs rd = Some (Dir [])
                                    then Inr (put (remove fs rs) rd n)
                                    else Inl ENOTEMPTY
                                | Some _ \<Rightarrow>
                                    if st_of n = Directory then Inl ENOTDIR
                                    else Inr (put (remove fs rs) rd n))))))"

section \<open>Library calls\<close>

text \<open>
  \<open>Path.mkdir(parents=True, exist_ok=...)\<close>: \<open>os.mkdir\<close>; on FileNotFoundError the
  parent is made first (with \<open>exist_ok=True\<close>) and \<open>os.mkdir\<close> is tried once more;
  any other OSError is raised again unless \<open>exist_ok\<close> holds and the path is a
  directory. The state comes back with the exception, since parents may have been
  made before it.
\<close>

definition mkdir_final :: "node \<Rightarrow> abs_path \<Rightarrow> bool \<Rightarrow> exn option \<times> node" where
  "mkdir_final fs q exist_ok =
     (case os_mkdir fs (comps q) of
        Inr fs' \<Rightarrow> (None, fs')
      | Inl ENOENT \<Rightarrow> (Some (oserror ENOENT q), fs)
      | Inl e \<Rightarrow> if \<not> exist_ok \<or> \<not> is_dir fs (comps q) then (Some (oserror e q), fs)
                 else (None, fs))"

function mkdir_parents :: "node \<Rightarrow> abs_path \<Rightarrow> bool \<Rightarrow> exn option \<times> node" where
  "mkdir_parents fs q exist_ok =
     (case os_mkdir fs (comps q) of
        Inr fs' \<Rightarrow> (None, fs')
      | Inl ENOENT \<Rightarrow>
          if comps q = [] then (Some (oserror ENOENT q), fs)
          else (case mkdir_parents fs (parent q) True of
                  (Some e, fs1) \<Rightarrow> (Some e, fs1)
                | (None, fs1) \<Rightarrow> mkdir_final fs1 q exist_ok)
      | Inl e \<Rightarrow> if \<not> exist_ok \<or> \<not> is_dir fs (comps q) then (Some (oserror e q), fs)
                 else (None, fs))"
  by pat_completeness auto
termination
  by (relation "measure (\<lambda>(fs, q, exist_ok). length (comps q))") (auto simp: parent_def)

declare mkdir_parents.simps [simp del]

text \<open>
  \<open>write_text\<close> opens with mode \<open>w\<close> and \<open>read_text\<close> with mode \<open>r\<close>, both with the
  default \<open>newline=None\<close>: on POSIX the text is stored as written, and reading
  turns \<open>\r\n\<close> and a lone \<open>\r\<close> into \<open>\n\<close>. \<open>open\<close> follows links, also to make the
  file that a dangling link names.
\<close>

fun universal_newlines :: "string \<Rightarrow> string" where
  "universal_newlines [] = []"
| "universal_newlines [c] = [if c = CHR 0x0D then CHR 0x0A else c]"
| "universal_newlines (c # d # ds) =
     (if c = CHR 0x0D
      then (if d = CHR 0x0A then CHR 0x0A # universal_newlines ds
            else CHR 0x0A # universal_newlines (d # ds))
      else c # universal_newlines (d # ds))"

definition write_text :: "node \<Rightarrow> abs_path \<Rightarrow> string \<Rightarrow> exn + node" where
  "write_text fs q data =
     (case walk fs True 40 [] (comps q) of
        Inl e \<Rightarrow> Inl (oserror e q)
      | Inr r \<Rightarrow>
          (case lstat fs r of
             Some Directory \<Rightarrow> Inl (oserror EISDIR q)
           | Some (Lnk _) \<Rightarrow> Inl (oserror ELOOP q)
           | _ \<Rightarrow> Inr (put fs r (File data))))"

definition read_text :: "node \<Rightarrow> abs_path \<Rightarrow> exn + string" where
  "read_text fs q =
     (case stat fs (comps q) of
        Inl e \<Rightarrow> Inl (oserror e q)
      | Inr (Reg data) \<Rightarrow> Inr (universal_newlines data)
      | Inr _ \<Rightarrow> Inl (oserror EISDIR q))"

definition unlink :: "node \<Rightarrow> abs_path \<Rightarrow> exn + node" where
  "unlink fs q =
     (case os_unlink fs (comps q) of
        Inl e \<Rightarrow> Inl (oserror e q)
      | Inr fs' \<Rightarrow> Inr fs')"

text \<open>
  \<open>shutil.rmtree\<close> refuses a link, fails on what is not a directory, and removes a
  directory with all it holds; at the root the contents go before \<open>rmdir\<close> fails.
\<close>

definition rmtree :: "node \<Rightarrow> abs_path \<Rightarrow> exn option \<times> node" where
  "rmtree fs q =
     (if comps q = []
      then (case fs of
              Dir es \<Rightarrow> (Some (oserror EBUSY q), Dir [])
            | _ \<Rightarrow> (Some (OSError ENOTDIR (''PosixPath('' @ repr (str_path q) @ '')'')), fs))
      else (case namei_parent fs (comps q) of
              Inl e \<Rightarrow> (Some (oserror e q), fs)
            | Inr r \<Rightarrow>
                (case lstat fs r of
                   None \<Rightarrow> (Some (oserror ENOENT q), fs)
                 | Some (Lnk _) \<Rightarrow>
                     (case stat fs (comps q) of
                        Inl e \<Rightarrow> (Some (oserror e q), fs)
                      | Inr _ \<Rightarrow> (Some (Error ''Cannot call rmtree on a symbolic link''), fs))
                 | Some (Reg _) \<Rightarrow>
                     (Some (OSError ENOTDIR (''PosixPath('' @ repr (str_path q) @ '')'')), fs)
                 | Some Directory \<Rightarrow> (None, remove fs r))))"

text \<open>
  \<open>shutil.move(str(src), str(dst))\<close> (Python 3.11), as \<open>rename_file\<close> calls it once
  the parent of the destination is made: into \<open>dst\<close> when that is a directory
  other than \<open>src\<close>, else onto it, by \<open>os.rename\<close>. When \<open>os.rename\<close> fails, a
  source that is a link is made anew at the destination and removed; a directory
  that would move into itself, by the text of the two paths, is refused, and else
  copied and removed; a plain file is copied and removed. On one device the copy
  of a directory is reached in two ways. With a destination that exists, it fails
  on making the destination. With a destination below the directory itself,
  through a link that the test on the text misses: as a new entry of the
  directory, the destination receives the copy and is removed with the directory;
  deeper down, the copy descends into itself until the recursion limit of the
  interpreter stops it, and there the model leaves the tree as it is and reports
  the error of \<open>os.rename\<close>.
\<close>

definition rename_text :: "string \<Rightarrow> string \<Rightarrow> string" where
  "rename_text src dst = repr src @ '' -> '' @ repr dst"

definition samefile :: "node \<Rightarrow> path \<Rightarrow> path \<Rightarrow> bool" where
  "samefile fs a b =
     (case (walk fs False 40 [] a, walk fs False 40 [] b) of
        (Inr x, Inr y) \<Rightarrow> x = y \<and> lstat fs x \<noteq> None
      | _ \<Rightarrow> False)"

definition islink :: "node \<Rightarrow> path \<Rightarrow> bool" where
  "islink fs q =
     (q \<noteq> [] \<and> (case namei_parent fs q of Inl e \<Rightarrow> False | Inr r \<Rightarrow> readlink fs r \<noteq> None))"

definition with_slash :: "string \<Rightarrow> string" where
  "with_slash s = (if s \<noteq> [] \<and> last s = CHR ''/'' then s else s @ ''/'')"

definition destinsrc :: "string \<Rightarrow> string \<Rightarrow> bool" where
  "destinsrc src dst = prefix (with_slash src) (with_slash dst)"

definition move_onto ::
  "node \<Rightarrow> abs_path \<Rightarrow> abs_path \<Rightarrow> string \<Rightarrow> path \<Rightarrow> exn option \<times> node" where
  "move_onto fs src dst real_dst real_comps =
     (case os_rename fs (comps src) real_comps of
        Inr fs' \<Rightarrow> (None, fs')
      | Inl e \<Rightarrow>
          if islink fs (comps src)
          then (case namei_parent fs (comps src) of
                  Inl e' \<Rightarrow> (Some (oserror e' src), fs)
                | Inr r \<Rightarrow>
                    (case readlink fs r of
                       None \<Rightarrow> (Some (oserror EINVAL src), fs)
                     | Some linkto \<Rightarrow>
                         (case os_symlink fs linkto real_comps of
                            Inl e' \<Rightarrow> (Some (OSError e' (rename_text linkto real_dst)), fs)
                          | Inr fs1 \<Rightarrow>
                              (case os_unlink fs1 (comps src) of
                                 Inl e' \<Rightarrow> (Some (oserror e' src), fs1)
                               | Inr fs2 \<Rightarrow> (None, fs2)))))
          else if is_dir fs (comps src)
          then (if destinsrc (str_path src) (str_path dst)
                then (Some (Error (''Cannot move a directory '' @ quote (str_path src)
                                    @ '' into itself '' @ quote (str_path dst) @ ''.'')), fs)
                else (case (namei_parent fs (comps src), namei_parent fs real_comps) of
                        (Inr rs, Inr rd) \<Rightarrow>
                          if real_comps = [] \<or> lstat fs rd \<noteq> None
                          then (Some (OSError EEXIST (repr real_dst)), fs)
                          else if butlast rd = rs then (None, remove fs rs)
                          else (Some (OSError e (rename_text (str_path src) real_dst)), fs)
                      | _ \<Rightarrow> (Some (OSError e (rename_text (str_path src) real_dst)), fs)))
          else (case stat fs (comps src) of
                  Inl e' \<Rightarrow> (Some (oserror e' src), fs)
                | Inr (Reg data) \<Rightarrow>
                    (case walk fs True 40 [] real_comps of
                       Inl e' \<Rightarrow> (Some (OSError e' (repr real_dst)), fs)
                     | Inr r \<Rightarrow>
                         (case lstat fs r of
                            Some Directory \<Rightarrow> (Some (OSError EISDIR (repr real_dst)), fs)
                          | Some (Lnk _) \<Rightarrow> (Some (OSError ELOOP (repr real_dst)), fs)
                          | _ \<Rightarrow>
                              (case os_unlink (put fs r (File data)) (comps src) of
                                 Inl e' \<Rightarrow> (Some (oserror e' src), put fs r (File data))
                               | Inr fs2 \<Rightarrow> (None, fs2))))
                | Inr _ \<Rightarrow> (Some (OSError e (rename_text (str_path src) real_dst)), fs)))"

definition shutil_move :: "node \<Rightarrow> abs_path \<Rightarrow> abs_path \<Rightarrow> exn option \<times> node" where
  "shutil_move fs src dst =
     (if is_dir fs (comps dst)
      then (if samefile fs (comps src) (comps dst) \<and> \<not> islink fs (comps src)
            then (case os_rename fs (comps src) (comps dst) of
                    Inl e \<Rightarrow> (Some (OSError e (rename_text (str_path src) (str_path dst))), fs)
                  | Inr fs' \<Rightarrow> (None, fs'))
            else (let base = (if comps src = [] then [] else last (comps src));
                      real_dst = posix_join (str_path dst) base;
                      real_comps = comps dst @ (if comps src = [] then [] else [base])
                  in if exists fs real_comps
                     then (Some (Error (''Destination path '' @ quote real_dst
                                         @ '' already exists'')), fs)
                     else move_onto fs src dst real_dst real_comps))
      else move_onto fs src dst (str_path dst) (comps dst))"

section \<open>AssistantFnc: path validation\<close>

text \<open>
  \<open>_validate_path\<close>; \<open>scratch_dir\<close> is \<open>self.scratch_dir\<close>, the absolute path fixed
  by the constructor. The \<open>except\<close> clause of the source logs and raises again, so
  the function raises what its body raises.
\<close>

definition validate_path :: "abs_path \<Rightarrow> node \<Rightarrow> string \<Rightarrow> exn + abs_path" where
  "validate_path scratch_dir fs relative_path =
     (let clean_path = Path (strip relative_path) in
      if parts clean_path = [] then Inl (ValueError ''Empty path is invalid'')
      else (case resolve fs (joinpath scratch_dir clean_path) of
              Inl e \<Rightarrow> Inl e
            | Inr full_path \<Rightarrow>
                (case resolve fs scratch_dir of
                   Inl e \<Rightarrow> Inl e
                 | Inr root \<Rightarrow>
                     if \<not> is_relative_to full_path root
                     then Inl (ValueError ''Path traversal attempt detected'')
                     else Inr full_path)))"

section \<open>AssistantFnc: the operations\<close>

text \<open>
  Every operation returns what the call returns (\<open>Inr\<close> the string) or lets escape
  (\<open>Inl\<close> the exception), together with the file tree it leaves. \<open>try_except\<close> is
  the \<open>try: ... except Exception as e: return ...\<close> around each body: an exception
  does not undo what the body did before it.
\<close>

type_synonym result = "(exn + string) \<times> node"

definition try_except :: "result \<Rightarrow> (exn \<Rightarrow> string) \<Rightarrow> result" where
  "try_except body handler =
     (case body of
        (Inl e, fs') \<Rightarrow> (Inr (handler e), fs')
      | (Inr v, fs') \<Rightarrow> (Inr v, fs'))"

definition create_file :: "abs_path \<Rightarrow> node \<Rightarrow> string \<Rightarrow> string \<Rightarrow> result" where
  "create_file scratch_dir fs file_path content =
     try_except
       (case validate_path scratch_dir fs file_path of
          Inl e \<Rightarrow> (Inl e, fs)
        | Inr full_path \<Rightarrow>
            (case mkdir_parents fs (parent full_path) True of
               (Some e, fs1) \<Rightarrow> (Inl e, fs1)
             | (None, fs1) \<Rightarrow>
                 if exists fs1 (comps full_path)
                 then (Inr (''File '' @ file_path @ '' already exists''), fs1)
                 else (case write_text fs1 full_path content of
                         Inl e \<Rightarrow> (Inl e, fs1)
                       | Inr fs2 \<Rightarrow> (Inr (''Created '' @ file_path), fs2))))
       (\<lambda>e. ''Error creating '' @ file_path @ '': '' @ str_exn e)"

text \<open>
  \<open>rglob("*")\<close> yields every entry below the directory, entries of subdirectories
  included, without descending through links; \<open>glob("*")\<close> yields its own entries.
  What is not a directory yields nothing.
\<close>

fun descendants :: "node \<Rightarrow> path list" where
  "descendants (Dir es) =
     concat (map (\<lambda>(name, n). [name] # map ((#) name) (descendants n)) es)"
| "descendants (File _) = []"
| "descendants (Symlink _) = []"

definition opendir :: "node \<Rightarrow> path \<Rightarrow> node option" where
  "opendir fs d =
     (case walk fs False 40 [] d of
        Inl e \<Rightarrow> None
      | Inr r \<Rightarrow> (case lookup fs r of Some (Dir es) \<Rightarrow> Some (Dir es) | _ \<Rightarrow> None))"

definition rglob_star :: "node \<Rightarrow> path \<Rightarrow> path list" where
  "rglob_star fs d =
     (case opendir fs d of None \<Rightarrow> [] | Some n \<Rightarrow> map ((@) d) (descendants n))"

definition glob_star :: "node \<Rightarrow> path \<Rightarrow> path list" where
  "glob_star fs d =
     (case opendir fs d of
        Some (Dir es) \<Rightarrow> map (\<lambda>(name, n). d @ [name]) es
      | _ \<Rightarrow> [])"

definition newline :: string where
  "newline = [CHR 0x0A]"

definition list_files :: "abs_path \<Rightarrow> node \<Rightarrow> result" where
  "list_files scratch_dir fs =
     (let file_list =
            map (\<lambda>path. str_rel (with_suffix_empty (relative_to path (comps scratch_dir))))
              (filter (is_file fs) (rglob_star fs (comps scratch_dir)))
      in (Inr (if file_list \<noteq> [] then join newline (sort file_list) else ''No files found''),
          fs))"

definition list_files_with_extensions :: "abs_path \<Rightarrow> node \<Rightarrow> result" where
  "list_files_with_extensions scratch_dir fs =
     (let file_list =
            map (\<lambda>path. str_rel (relative_to path (comps scratch_dir)))
              (filter (is_file fs) (rglob_star fs (comps scratch_dir)))
      in (Inr (if file_list \<noteq> [] then join newline (sort file_list) else ''No files found''),
          fs))"

definition read_file :: "abs_path \<Rightarrow> node \<Rightarrow> string \<Rightarrow> result" where
  "read_file scratch_dir fs file_path =
     try_except
       (case validate_path scratch_dir fs file_path of
          Inl e \<Rightarrow> (Inl e, fs)
        | Inr full_path \<Rightarrow>
            if \<not> exists fs (comps full_path)
            then (Inr (''File '' @ file_path @ '' not found.''), fs)
            else if \<not> is_file fs (comps full_path)
            then (Inr (''Path '' @ file_path @ '' is not a file.''), fs)
            else (case read_text fs full_path of
                    Inl e \<Rightarrow> (Inl e, fs)
                  | Inr text \<Rightarrow>
                      (Inr (''Contents of '' @ file_path @ '':'' @ newline @ text), fs)))
       (\<lambda>e. ''Could not read '' @ file_path)"

definition create_folder :: "abs_path \<Rightarrow> node \<Rightarrow> string \<Rightarrow> bool \<Rightarrow> result" where
  "create_folder scratch_dir fs folder_path overwrite =
     try_except
       (case validate_path scratch_dir fs folder_path of
          Inl e \<Rightarrow> (Inl e, fs)
        | Inr full_path \<Rightarrow>
            if exists fs (comps full_path) \<and> is_file fs (comps full_path)
            then (Inr (''Path '' @ folder_path @ '' is a file, cannot create folder here.''), fs)
            else if exists fs (comps full_path) \<and> \<not> overwrite
            then (Inr (''Folder '' @ folder_path @ '' already exists''), fs)
            else (case (if exists fs (comps full_path) then rmtree fs full_path
                        else (None, fs)) of
                    (Some e, fs1) \<Rightarrow> (Inl e, fs1)
                  | (None, fs1) \<Rightarrow>
                      (case mkdir_parents fs1 full_path False of
                         (Some e, fs2) \<Rightarrow> (Inl e, fs2)
                       | (None, fs2) \<Rightarrow> (Inr (''Created folder '' @ folder_path), fs2))))
       (\<lambda>e. ''Failed to create folder '' @ folder_path)"

text \<open>
  In \<open>list_all\<close> the test \<open>path not in items\<close> compares a \<open>Path\<close> with the strings
  collected so far; a \<open>Path\<close> never equals a \<open>str\<close>, so the test always holds.
\<close>

definition path_not_in :: "path \<Rightarrow> string list \<Rightarrow> bool" where
  "path_not_in path items = True"

definition folder_mark :: "path \<Rightarrow> string" where
  "folder_mark rel_path = str_rel rel_path @ '' (Folder)''"

fun list_all_pass1 :: "path \<Rightarrow> node \<Rightarrow> string list \<Rightarrow> path list \<Rightarrow> string list" where
  "list_all_pass1 scratch_dir fs items [] = items"
| "list_all_pass1 scratch_dir fs items (path # paths) =
     (let rel_path = relative_to path scratch_dir
      in list_all_pass1 scratch_dir fs
           (if is_dir fs path then items @ [folder_mark rel_path]
            else if is_file fs path then items @ [str_rel rel_path]
            else items)
           paths)"

fun list_all_pass2 :: "path \<Rightarrow> node \<Rightarrow> string list \<Rightarrow> path list \<Rightarrow> string list" where
  "list_all_pass2 scratch_dir fs items [] = items"
| "list_all_pass2 scratch_dir fs items (path # paths) =
     list_all_pass2 scratch_dir fs
       (if is_dir fs path \<and> path_not_in path items
        then items @ [folder_mark (relative_to path scratch_dir)]
        else if is_file fs path \<and> path_not_in path items
        then items @ [str_rel (relative_to path scratch_dir)]
        else items)
       paths"

definition list_all_items :: "abs_path \<Rightarrow> node \<Rightarrow> string list" where
  "list_all_items scratch_dir fs =
     list_all_pass2 (comps scratch_dir) fs
       (list_all_pass1 (comps scratch_dir) fs [] (rglob_star fs (comps scratch_dir)))
       (glob_star fs (comps scratch_dir))"

definition sort_items :: "string list \<Rightarrow> string list" where
  "sort_items items = sort_key (\<lambda>x. (\<not> endswith x ''(Folder)'', x)) items"

definition list_all :: "abs_path \<Rightarrow> node \<Rightarrow> result" where
  "list_all scratch_dir fs =
     (let sorted_items = sort_items (list_all_items scratch_dir fs)
      in (Inr (if sorted_items \<noteq> [] then join newline sorted_items
               else ''No files or folders found''),
          fs))"

definition delete_folder :: "abs_path \<Rightarrow> node \<Rightarrow> string \<Rightarrow> result" where
  "delete_folder scratch_dir fs folder_path =
     try_except
       (case validate_path scratch_dir fs folder_path of
          Inl e \<Rightarrow> (Inl e, fs)
        | Inr full_path \<Rightarrow>
            if \<not> exists fs (comps full_path)
            then (Inr (''Folder '' @ folder_path @ '' not found''), fs)
            else if \<not> is_dir fs (comps full_path)
            then (Inr (''Path '' @ folder_path @ '' is not a directory''), fs)
            else (case rmtree fs full_path of
                    (Some e, fs1) \<Rightarrow> (Inl e, fs1)
                  | (None, fs1) \<Rightarrow> (Inr (''Deleted folder '' @ folder_path), fs1)))
       (\<lambda>e. ''Failed to delete folder '' @ folder_path)"

definition rename_file :: "abs_path \<Rightarrow> node \<Rightarrow> string \<Rightarrow> string \<Rightarrow> result" where
  "rename_file scratch_dir fs old_path new_path =
     try_except
       (case validate_path scratch_dir fs old_path of
          Inl e \<Rightarrow> (Inl e, fs)
        | Inr src \<Rightarrow>
            (case validate_path scratch_dir fs new_path of
               Inl e \<Rightarrow> (Inl e, fs)
             | Inr dest \<Rightarrow>
                 if \<not> exists fs (comps src)
                 then (Inr (''Error: Source path '' @ quote old_path @ '' does not exist''), fs)
                 else if exists fs (comps dest)
                 then (Inr (''Error: Destination path '' @ quote new_path @ '' already exists''), fs)
                 else (case mkdir_parents fs (parent dest) True of
                         (Some e, fs1) \<Rightarrow> (Inl e, fs1)
                       | (None, fs1) \<Rightarrow>
                           (case shutil_move fs1 src dest of
                              (Some e, fs2) \<Rightarrow> (Inl e, fs2)
                            | (None, fs2) \<Rightarrow>
                                (Inr (''Successfully renamed/moved '' @ quote old_path
                                      @ '' to '' @ quote new_path), fs2)))))
       (\<lambda>e. ''Failed to rename '' @ quote old_path @ '': '' @ str_exn e)"

definition update_file :: "abs_path \<Rightarrow> node \<Rightarrow> string \<Rightarrow> string \<Rightarrow> result" where
  "update_file scratch_dir fs file_path new_content =
     try_except
       (case validate_path scratch_dir fs file_path of
          Inl e \<Rightarrow> (Inl e, fs)
        | Inr full_path \<Rightarrow>
            if \<not> exists fs (comps full_path)
            then (Inr (''File '' @ file_path @ '' not found''), fs)
            else if \<not> is_file fs (comps full_path)
            then (Inr (''Path '' @ file_path @ '' is not a file''), fs)
            else (case write_text fs full_path new_content of
                    Inl e \<Rightarrow> (Inl e, fs)
                  | Inr fs1 \<Rightarrow> (Inr (''Updated '' @ file_path), fs1)))
       (\<lambda>e. ''Failed to update '' @ file_path)"

definition delete_file :: "abs_path \<Rightarrow> node \<Rightarrow> string \<Rightarrow> result" where
  "delete_file scratch_dir fs file_path =
     try_except
       (case validate_path scratch_dir fs file_path of
          Inl e \<Rightarrow> (Inl e, fs)
        | Inr full_path \<Rightarrow>
            if \<not> exists fs (comps full_path)
            then (Inr (''File '' @ file_path @ '' not found''), fs)
            else if \<not> is_file fs (comps full_path)
            then (Inr (''Path '' @ file_path @ '' is not a file''), fs)
            else (case unlink fs full_path of
                    Inl e \<Rightarrow> (Inl e, fs)
                  | Inr fs1 \<Rightarrow> (Inr (''Deleted '' @ file_path), fs1)))
       (\<lambda>e. ''Failed to delete '' @ file_path)"

text \<open>\<open>get_time\<close> formats the clock; \<open>now\<close> is the formatted reading. It has no \<open>try\<close>.\<close>

definition get_time :: "string \<Rightarrow> node \<Rightarrow> result" where
  "get_time now fs = (Inr now, fs)"

definition marked :: "string \<Rightarrow> bool" where
  "marked x = endswith x ''(Folder)''"

section \<open>Resolved paths\<close>

text \<open>
  A path is canonical in a file tree when none of its components is empty, \<open>.\<close> or
  \<open>..\<close> and none of its non-empty prefixes is a symbolic link. \<open>realpath\<close>
  returns such a path when it meets no symlink loop.
\<close>

definition normal :: "string \<Rightarrow> bool" where
  "normal name = (name \<noteq> [] \<and> name \<noteq> ''.'' \<and> name \<noteq> ''..'')"

definition canonical :: "node \<Rightarrow> path \<Rightarrow> bool" where
  "canonical fs q =
     ((\<forall>name \<in> set q. normal name) \<and> (\<forall>r. prefix r q \<longrightarrow> r \<noteq> [] \<longrightarrow> readlink fs r = None))"


section \<open>Example states\<close>

text \<open>A sandbox at \<open>/sb\<close> next to \<open>/etc\<close>, with a link that leaves the sandbox.\<close>

definition sandbox :: abs_path where
  "sandbox = \<lparr> root2 = False, comps = [''sb''] \<rparr>"

definition fs_link :: node where
  "fs_link =
     Dir [(''sb'', Dir [(''a.txt'', File ''hi''),
                        (''d'', Dir [(''x'', File ''1'')]),
                        (''out'', Symlink ''/etc'')]),
          (''etc'', Dir [(''passwd'', File ''root'')])]"

text \<open>The same, with a link \<open>l\<close> to itself.\<close>

definition fs_loop :: node where
  "fs_loop =
     Dir [(''sb'', Dir [(''l'', Symlink ''l''),
                        (''d'', Dir []),
                        (''out'', Symlink ''/etc'')]),
          (''etc'', Dir [(''passwd'', File ''root'')])]"

definition fs_one :: node where
  "fs_one = Dir [(''sb'', Dir [(''a.txt'', File ''hi'')]), (''etc'', Dir [])]"

definition fs_two :: node where
  "fs_two = Dir [(''sb'', Dir [(''a.txt'', File ''hi''), (''a.md'', File ''x'')])]"

definition fs_named :: node where
  "fs_named = Dir [(''sb'', Dir [(''a(Folder)'', File ''hi''), (''b'', Dir [])])]"

section \<open>Path validation\<close>

text \<open>
  C1. The guard of \<open>validate_path\<close> compares what \<open>resolve\<close> returns, and after a
  symlink loop \<open>resolve\<close> returns a path it has not resolved. With the link
  \<open>l\<close> to itself in the sandbox \<open>/sb\<close> and the link \<open>out\<close> to \<open>/etc\<close>, the path
  \<open>l/../out/passwd\<close> validates to \<open>/sb/out/passwd\<close>, which the kernel reads as
  \<open>/etc/passwd\<close>: \<open>delete_file\<close> removes that file and \<open>create_file\<close> writes next to
  it, both outside the sandbox root.
\<close>

theorem symlink_loop_escapes_sandbox:
  "resolve fs_loop sandbox = Inr \<lparr> root2 = False, comps = [''sb''] \<rparr>
   \<and> validate_path sandbox fs_loop ''l/../out/passwd''
       = Inr \<lparr> root2 = False, comps = [''sb'', ''out'', ''passwd''] \<rparr>
   \<and> walk fs_loop False 40 [] [''sb'', ''out'', ''passwd''] = Inr [''etc'', ''passwd'']
   \<and> delete_file sandbox fs_loop ''l/../out/passwd''
       = (Inr ''Deleted l/../out/passwd'',
          Dir [(''sb'', Dir [(''l'', Symlink ''l''), (''d'', Dir []), (''out'', Symlink ''/etc'')]),
               (''etc'', Dir [])])
   \<and> create_file sandbox fs_loop ''l/../out/shadow'' ''x''
       = (Inr ''Created l/../out/shadow'',
          Dir [(''sb'', Dir [(''l'', Symlink ''l''), (''d'', Dir []), (''out'', Symlink ''/etc'')]),
               (''etc'', Dir [(''passwd'', File ''root''), (''shadow'', File ''x'')])])"
proof -
  have a: "resolve fs_loop sandbox = Inr \<lparr> root2 = False, comps = [''sb''] \<rparr>"
    by code_simp
  have b: "validate_path sandbox fs_loop ''l/../out/passwd''
             = Inr \<lparr> root2 = False, comps = [''sb'', ''out'', ''passwd''] \<rparr>"
    by code_simp
  have c: "walk fs_loop False 40 [] [''sb'', ''out'', ''passwd''] = Inr [''etc'', ''passwd'']"
    by code_simp
  have d: "delete_file sandbox fs_loop ''l/../out/passwd''
       = (Inr ''Deleted l/../out/passwd'',
          Dir [(''sb'', Dir [(''l'', Symlink ''l''), (''d'', Dir []), (''out'', Symlink ''/etc'')]),
               (''etc'', Dir [])])"
    by code_simp
  have e: "create_file sandbox fs_loop ''l/../out/shadow'' ''x''
       = (Inr ''Created l/../out/shadow'',
          Dir [(''sb'', Dir [(''l'', Symlink ''l''), (''d'', Dir []), (''out'', Symlink ''/etc'')]),
               (''etc'', Dir [(''passwd'', File ''root''), (''shadow'', File ''x'')])])"
    by code_simp
  show ?thesis by (intro conjI a b c d e)
qed

lemma realpath_loop_not_empty_error:
  "realpath_loop fs seen path stack \<noteq> Inl (ValueError ''Empty path is invalid'')"
  by (induction fs seen path stack rule: realpath_loop.induct)
     (auto split: option.splits simp: fun_upd_def)

lemma resolve_not_empty_error: "resolve fs q \<noteq> Inl (ValueError ''Empty path is invalid'')"
proof -
  have "realpath_loop fs Map.empty [] (map Part (comps q))
          \<noteq> Inl (ValueError ''Empty path is invalid'')"
    by (rule realpath_loop_not_empty_error)
  then show ?thesis
    by (auto simp: resolve_def Let_def split: sum.splits realpath.splits errno.splits)
qed

text \<open>
  C2, as amended. Validation raises "Empty path is invalid" exactly for the strings
  that have no component after trimming: nothing but whitespace, separators-free
  dots such as \<open>.\<close> and \<open>./\<close>. A string with components that leads back to the root,
  such as \<open>a/..\<close>, is accepted and resolves to the root.
\<close>

theorem empty_path_rejected:
  "validate_path sd fs p = Inl (ValueError ''Empty path is invalid'')
     \<longleftrightarrow> parts (Path (strip p)) = []"
proof
  assume "parts (Path (strip p)) = []"
  then show "validate_path sd fs p = Inl (ValueError ''Empty path is invalid'')"
    by (simp add: validate_path_def)
next
  assume v: "validate_path sd fs p = Inl (ValueError ''Empty path is invalid'')"
  show "parts (Path (strip p)) = []"
  proof (rule ccontr)
    assume ne: "parts (Path (strip p)) \<noteq> []"
    note r = resolve_not_empty_error
    from v ne r[of fs "joinpath sd (Path (strip p))"] r[of fs sd] show False
      by (auto simp: validate_path_def Let_def split: sum.splits if_splits)
  qed
qed

theorem empty_path_rejected_witness:
  "parts (Path (strip '' ./ '')) = []
   \<and> validate_path sandbox fs_one '' ./ '' = Inl (ValueError ''Empty path is invalid'')"
proof -
  have a: "parts (Path (strip '' ./ '')) = []" by code_simp
  with empty_path_rejected[of sandbox fs_one "'' ./ ''"] show ?thesis by simp
qed

text \<open>
  C2, as stated, fails: \<open>a/..\<close> has two components, validates to the sandbox root,
  and \<open>delete_folder\<close> then removes the root itself.
\<close>

theorem root_path_accepted:
  "validate_path sandbox fs_one ''a/..'' = Inr \<lparr> root2 = False, comps = [''sb''] \<rparr>
   \<and> delete_folder sandbox fs_one ''a/..'' = (Inr ''Deleted folder a/..'', Dir [(''etc'', Dir [])])"
proof -
  have a: "validate_path sandbox fs_one ''a/..'' = Inr \<lparr> root2 = False, comps = [''sb''] \<rparr>"
    by code_simp
  have b: "delete_folder sandbox fs_one ''a/..''
             = (Inr ''Deleted folder a/..'', Dir [(''etc'', Dir [])])"
    by code_simp
  show ?thesis by (intro conjI a b)
qed

section \<open>No exception escapes\<close>

lemma try_except_returns: "\<exists>msg fs'. try_except b h = (Inr msg, fs')"
  by (cases b) (auto simp: try_except_def split: sum.splits)

text \<open>
  C3. Every operation returns a string, whatever its arguments and the file tree:
  no call ends in an exception.
\<close>

theorem operations_return_strings:
  "(\<exists>msg fs'. create_file sd fs p c = (Inr msg, fs'))
 \<and> (\<exists>msg fs'. list_files sd fs = (Inr msg, fs'))
 \<and> (\<exists>msg fs'. list_files_with_extensions sd fs = (Inr msg, fs'))
 \<and> (\<exists>msg fs'. read_file sd fs p = (Inr msg, fs'))
 \<and> (\<exists>msg fs'. create_folder sd fs p ov = (Inr msg, fs'))
 \<and> (\<exists>msg fs'. list_all sd fs = (Inr msg, fs'))
 \<and> (\<exists>msg fs'. delete_folder sd fs p = (Inr msg, fs'))
 \<and> (\<exists>msg fs'. rename_file sd fs p p' = (Inr msg, fs'))
 \<and> (\<exists>msg fs'. update_file sd fs p c = (Inr msg, fs'))
 \<and> (\<exists>msg fs'. delete_file sd fs p = (Inr msg, fs'))
 \<and> (\<exists>msg fs'. get_time now fs = (Inr msg, fs'))"
  unfolding create_file_def read_file_def create_folder_def delete_folder_def rename_file_def
    update_file_def delete_file_def
  by (simp add: try_except_returns list_files_def list_files_with_extensions_def list_all_def
      get_time_def Let_def)

section \<open>Listings\<close>

text \<open>
  C5. The second pass of \<open>list_all\<close> adds every entry of the root again, since its
  membership test never finds a path among strings: with the single file \<open>a.txt\<close>
  the listing has the line twice.
\<close>

theorem list_all_repeats_root_entries:
  "list_all sandbox fs_one = (Inr (''a.txt'' @ newline @ ''a.txt''), fs_one)"
  by code_simp

lemma sort_key_Nil_iff: "(sort_key f xs = []) = (xs = [])"
proof
  assume "sort_key f xs = []"
  then have "length (sort_key f xs) = 0" by simp
  then show "xs = []" by (simp only: length_sort length_0_conv)
next
  assume "xs = []"
  then show "sort_key f xs = []" by simp
qed

lemma sorted_key_split:
  "sorted (map (\<lambda>x. (\<not> P x, x)) xs) \<Longrightarrow>
     xs = filter P xs @ filter (\<lambda>x. \<not> P x) xs
     \<and> sorted (filter P xs) \<and> sorted (filter (\<lambda>x. \<not> P x) xs)"
proof (induction xs)
  case Nil
  then show ?case by simp
next
  case (Cons x xs)
  then have IH: "xs = filter P xs @ filter (\<lambda>x. \<not> P x) xs" "sorted (filter P xs)"
      "sorted (filter (\<lambda>x. \<not> P x) xs)"
    and le: "\<forall>y\<in>set xs. (\<not> P x, x) \<le> (\<not> P y, y)"
    by auto
  show ?case
  proof (cases "P x")
    case True
    with le have "\<forall>y\<in>set (filter P xs). x \<le> y" by (auto simp: less_eq_prod_def)
    with True IH show ?thesis by auto
  next
    case False
    with le have all: "\<forall>y\<in>set xs. \<not> P y \<and> x \<le> y" by (auto simp: less_eq_prod_def)
    then have "filter P xs = []" by (auto simp: filter_empty_conv)
    with False IH all show ?thesis by auto
  qed
qed

text \<open>
  What the sort of \<open>list_all\<close> does: it returns the sentinel when nothing is found
  and else the sorted entries joined by newlines; the sorted entries are a
  rearrangement of the collected ones, first those whose string ends with
  \<open>(Folder)\<close>, ascending, then the others, ascending. The key reads the end of the
  displayed string, not the kind of the entry.
\<close>

lemma sort_items_by_marker:
  "list_all sd fs =
     (Inr (if list_all_items sd fs = [] then ''No files or folders found''
           else join newline (sort_items (list_all_items sd fs))), fs)
   \<and> sort_items items =
       filter marked (sort_items items) @ filter (\<lambda>x. \<not> marked x) (sort_items items)
   \<and> sorted (filter marked (sort_items items))
   \<and> sorted (filter (\<lambda>x. \<not> marked x) (sort_items items))
   \<and> mset (sort_items items) = mset items
   \<and> marked (folder_mark r)"
proof -
  have s: "sorted (map (\<lambda>x. (\<not> marked x, x)) (sort_items items))"
    unfolding sort_items_def marked_def by (rule sorted_sort_key)
  have e: "(sort_items xs = []) = (xs = [])" for xs
    unfolding sort_items_def by (rule sort_key_Nil_iff)
  have m: "mset (sort_items items) = mset items"
    unfolding sort_items_def by simp
  have f: "marked (folder_mark r)"
    by (simp add: marked_def folder_mark_def endswith_def)
  have l: "list_all sd fs =
     (Inr (if list_all_items sd fs = [] then ''No files or folders found''
           else join newline (sort_items (list_all_items sd fs))), fs)"
    by (simp add: list_all_def Let_def e)
  note k = sorted_key_split[OF s]
  show ?thesis
    by (intro conjI l m f k[THEN conjunct1] k[THEN conjunct2, THEN conjunct1]
          k[THEN conjunct2, THEN conjunct2])
qed

text \<open>
  C9. The comment at the sort says "folders first", and the key tests whether the
  displayed string ends with \<open>(Folder)\<close>. A file whose own name ends so passes the
  test: with the file \<open>a(Folder)\<close> and the folder \<open>b\<close> in the sandbox, the file entry
  \<open>a(Folder)\<close> is listed before the folder entry \<open>b (Folder)\<close>.
\<close>

theorem file_sorted_before_folder:
  "is_file fs_named [''sb'', ''a(Folder)''] \<and> is_dir fs_named [''sb'', ''b'']
   \<and> sort_items (list_all_items sandbox fs_named)
       = [''a(Folder)'', ''a(Folder)'', ''b (Folder)'', ''b (Folder)'']"
proof -
  have a: "is_file fs_named [''sb'', ''a(Folder)'']" by code_simp
  have b: "is_dir fs_named [''sb'', ''b'']" by code_simp
  have i: "list_all_items sandbox fs_named
             = [''a(Folder)'', ''b (Folder)'', ''a(Folder)'', ''b (Folder)'']"
    by code_simp
  have c: "sort_items [''a(Folder)'', ''b (Folder)'', ''a(Folder)'', ''b (Folder)'']
             = [''a(Folder)'', ''a(Folder)'', ''b (Folder)'', ''b (Folder)'']"
    by code_simp
  from i c have "sort_items (list_all_items sandbox fs_named)
             = [''a(Folder)'', ''a(Folder)'', ''b (Folder)'', ''b (Folder)'']"
    by (simp only:)
  with a b show ?thesis by (intro conjI)
qed

text \<open>
  C10. \<open>list_files\<close> removes the last suffix only (\<open>a.tar.gz\<close> becomes \<open>a.tar\<close>), and
  two files that differ in that suffix alone give the same line twice.
\<close>

theorem list_files_duplicate_lines:
  "is_file fs_two [''sb'', ''a.txt''] \<and> is_file fs_two [''sb'', ''a.md'']
   \<and> list_files sandbox fs_two = (Inr (''a'' @ newline @ ''a''), fs_two)
   \<and> with_suffix_empty [''d'', ''a.tar.gz''] = [''d'', ''a.tar'']"
proof -
  have a: "is_file fs_two [''sb'', ''a.txt'']" by code_simp
  have b: "is_file fs_two [''sb'', ''a.md'']" by code_simp
  have c: "list_files sandbox fs_two = (Inr (''a'' @ newline @ ''a''), fs_two)" by code_simp
  have d: "with_suffix_empty [''d'', ''a.tar.gz''] = [''d'', ''a.tar'']" by code_simp
  show ?thesis by (intro conjI a b c d)
qed

section \<open>Resolved paths have plain names\<close>

lemma lookup_append:
  "lookup fs (a @ b) = (case lookup fs a of None \<Rightarrow> None | Some m \<Rightarrow> lookup m b)"
  by (induction fs a rule: lookup.induct) (auto split: option.splits)

lemma lookup_Cons_dir: "lookup n (c # cs) = Some m \<Longrightarrow> \<exists>es. n = Dir es"
  by (cases n) auto

lemma lstat_prefix:
  assumes "lstat fs (a @ b) = Some s" and "b \<noteq> []"
  shows "lstat fs a = Some Directory"
proof -
  from assms(2) obtain c cs where b: "b = c # cs" by (cases b) auto
  from assms(1) obtain n where n: "lookup fs (a @ b) = Some n" by (auto simp: lstat_def)
  then obtain m where m: "lookup fs a = Some m" and l: "lookup m b = Some n"
    by (auto simp: lookup_append split: option.splits)
  from l b obtain es where "m = Dir es" by (auto dest: lookup_Cons_dir)
  with m show ?thesis by (simp add: lstat_def)
qed

lemma lstat_prefix_some:
  assumes "lstat fs (a @ b) = Some s"
  shows "lstat fs a \<noteq> None"
proof (cases "b = []")
  case True
  with assms show ?thesis by simp
next
  case False
  with assms have "lstat fs a = Some Directory" by (rule lstat_prefix)
  then show ?thesis by simp
qed

lemma canonical_Nil: "canonical fs []"
  by (simp add: canonical_def)

lemma canonical_butlast: "canonical fs q \<Longrightarrow> canonical fs (butlast q)"
  unfolding canonical_def
  by (meson in_set_butlastD prefix_order.trans prefixeq_butlast)

lemma canonical_snoc:
  "canonical fs q \<Longrightarrow> normal name \<Longrightarrow> readlink fs (q @ [name]) = None \<Longrightarrow>
   canonical fs (q @ [name])"
  unfolding canonical_def by (auto simp: prefix_snoc)

lemma canonical_normal: "canonical fs q \<Longrightarrow> \<forall>name \<in> set q. normal name"
  by (simp add: canonical_def)

lemma realpath_loop_canonical:
  "realpath_loop fs seen path stack = Inr (Resolved r) \<Longrightarrow> canonical fs path \<Longrightarrow>
   (\<forall>l c. seen l = Some (Some c) \<longrightarrow> canonical fs c) \<Longrightarrow> canonical fs r"
proof (induction fs seen path stack rule: realpath_loop.induct)
  case (1 fs seen path)
  then show ?case by simp
next
  case (2 fs seen path l rest)
  then show ?case by (auto simp: fun_upd_def)
next
  case (3 fs seen path name rest)
  then show ?case
    by (auto simp: fun_upd_def normal_def canonical_Nil canonical_butlast canonical_snoc
             split: if_splits option.splits)
qed

lemma normpath_comps_normal:
  "\<forall>name \<in> set new_comps. normal name \<Longrightarrow>
   \<forall>name \<in> set (normpath_comps new_comps xs). normal name"
proof (induction xs arbitrary: new_comps)
  case Nil
  then show ?case by simp
next
  case (Cons c xs)
  from Cons.prems have b: "\<forall>name \<in> set (butlast new_comps). normal name"
    by (auto dest: in_set_butlastD)
  show ?case
  proof (cases "c = [] \<or> c = ''.''")
    case True
    with Cons.IH[OF Cons.prems] show ?thesis by simp
  next
    case False
    show ?thesis
    proof (cases "c = ''..''")
      case True
      with Cons.IH[OF b] show ?thesis by simp
    next
      case n: False
      from False n Cons.prems have "\<forall>name \<in> set (new_comps @ [c]). normal name"
        by (auto simp: normal_def)
      from Cons.IH[OF this] False n show ?thesis by simp
    qed
  qed
qed

lemma resolve_normal:
  assumes "resolve fs q = Inr p"
  shows "\<forall>name \<in> set (comps p). normal name"
proof (cases "realpath_loop fs Map.empty [] (map Part (comps q))")
  case (Inl e)
  with assms show ?thesis by (simp add: resolve_def)
next
  case (Inr r)
  show ?thesis
  proof (cases r)
    case (Resolved path)
    with Inr have "canonical fs path"
      by (auto intro: realpath_loop_canonical[OF _ canonical_Nil])
    then have "\<forall>name \<in> set path. normal name" by (rule canonical_normal)
    moreover from assms Inr Resolved have "comps p = path"
      by (auto simp: resolve_def Let_def split: if_splits sum.splits errno.splits)
    ultimately show ?thesis by simp
  next
    case (Unresolved s)
    have "\<forall>name \<in> set (normpath_comps [] (split_sep s)). normal name"
      by (rule normpath_comps_normal) simp
    moreover from assms Inr Unresolved have "comps p = normpath_comps [] (split_sep s)"
      by (auto simp: resolve_def Let_def abs_of_string_def
               split: if_splits sum.splits errno.splits)
    ultimately show ?thesis by simp
  qed
qed

lemma validate_path_normal:
  "validate_path sd fs p = Inr q \<Longrightarrow> \<forall>name \<in> set (comps q). normal name"
  by (auto simp: validate_path_def Let_def split: if_splits sum.splits dest: resolve_normal)

section \<open>The walk along a path that exists\<close>

lemma walk_append:
  "walk fs creat n cur (xs @ ys) = Inr r \<Longrightarrow>
   \<exists>d m. walk fs creat n cur xs = Inr d \<and> walk fs creat m d ys = Inr r"
proof (induction fs creat n cur xs rule: walk.induct)
  case (1 fs creat n cur)
  then show ?case by auto
next
  case (2 fs creat n cur name rest)
  from "2.prems" have w: "walk fs creat n cur (name # rest @ ys) = Inr r" by simp
  have d: "is_directory fs cur"
  proof (rule ccontr)
    assume "\<not> is_directory fs cur"
    with w show False by simp
  qed
  then have dd: "\<not> \<not> is_directory fs cur" by simp
  consider (skip) "name = [] \<or> name = ''.''"
    | (up) "\<not> (name = [] \<or> name = ''.'')" "name = ''..''"
    | (down) "\<not> (name = [] \<or> name = ''.'')" "name \<noteq> ''..''"
    by blast
  then show ?case
  proof cases
    case skip
    with w d have "walk fs creat n cur (rest @ ys) = Inr r" by auto
    from "2.IH"(1)[OF dd skip this] obtain d' m
      where "walk fs creat n cur rest = Inr d'" "walk fs creat m d' ys = Inr r" by blast
    with d skip show ?thesis by auto
  next
    case up
    with w d have "walk fs creat n (butlast cur) (rest @ ys) = Inr r" by auto
    from "2.IH"(2)[OF dd up this] obtain d' m
      where "walk fs creat n (butlast cur) rest = Inr d'" "walk fs creat m d' ys = Inr r"
      by blast
    with d up show ?thesis by auto
  next
    case down
    show ?thesis
    proof (cases "lstat fs (cur @ [name])")
      case None
      with w d down have "creat \<and> rest = [] \<and> ys = [] \<and> r = cur @ [name]"
        by (auto split: if_splits)
      with None d down show ?thesis by auto
    next
      case (Some x2)
      show ?thesis
      proof (cases x2)
        case (Reg x1)
        with w d down Some have "walk fs creat n (cur @ [name]) (rest @ ys) = Inr r" by auto
        from "2.IH"(3)[OF dd down Some Reg this] obtain d' m
          where "walk fs creat n (cur @ [name]) rest = Inr d'" "walk fs creat m d' ys = Inr r"
          by blast
        with d down Some Reg show ?thesis by auto
      next
        case Directory
        with w d down Some have "walk fs creat n (cur @ [name]) (rest @ ys) = Inr r" by auto
        from "2.IH"(4)[OF dd down Some Directory this] obtain d' m
          where "walk fs creat n (cur @ [name]) rest = Inr d'" "walk fs creat m d' ys = Inr r"
          by blast
        with d down Some Directory show ?thesis by auto
      next
        case (Lnk t)
        with w d down Some obtain k where n: "n = Suc k"
          and "walk fs creat k (if is_abs t then [] else cur) (split_sep t @ rest @ ys) = Inr r"
          by (cases n) auto
        then have "walk fs creat k (if is_abs t then [] else cur) ((split_sep t @ rest) @ ys)
                     = Inr r"
          by simp
        from "2.IH"(5)[OF dd down Some Lnk n this] obtain d' m
          where "walk fs creat k (if is_abs t then [] else cur) (split_sep t @ rest) = Inr d'"
            and "walk fs creat m d' ys = Inr r"
          by blast
        with d down Some Lnk n show ?thesis by auto
      qed
    qed
  qed
qed

lemma walk_name:
  assumes "walk fs False m d [c] = Inr r" and "normal c"
  shows "is_directory fs d" and "lstat fs (d @ [c]) \<noteq> None"
  using assms by (auto simp: normal_def split: if_splits option.splits)

lemma stat_butlast:
  assumes "stat fs cs = Inr s" and "\<forall>name \<in> set cs. normal name" and "cs \<noteq> []"
  shows "\<exists>d. walk fs False 40 [] (butlast cs) = Inr d \<and> is_directory fs d
            \<and> lstat fs (d @ [last cs]) \<noteq> None"
proof -
  from assms(3) have cs: "butlast cs @ [last cs] = cs" by simp
  from assms(1) obtain r where "walk fs False 40 [] cs = Inr r"
    by (auto simp: stat_def split: sum.splits)
  with cs have "walk fs False 40 [] (butlast cs @ [last cs]) = Inr r" by simp
  then obtain d m where d: "walk fs False 40 [] (butlast cs) = Inr d"
    and l: "walk fs False m d [last cs] = Inr r"
    by (blast dest: walk_append)
  from assms(2,3) have "normal (last cs)" by simp
  from walk_name[OF l this] d show ?thesis by blast
qed

lemma is_dir_butlast:
  assumes "exists fs cs" and "\<forall>name \<in> set cs. normal name" and "cs \<noteq> []"
  shows "is_dir fs (butlast cs)"
proof -
  from assms(1) obtain s where "stat fs cs = Inr s"
    by (cases "stat fs cs") (auto simp: exists_def)
  from stat_butlast[OF this assms(2,3)] show ?thesis
    by (auto simp: is_dir_def stat_def is_directory_def)
qed

lemma os_mkdir_existing:
  assumes "exists fs cs" and "\<forall>name \<in> set cs. normal name"
  shows "os_mkdir fs cs = Inl EEXIST"
proof (cases "cs = []")
  case True
  then show ?thesis by (simp add: os_mkdir_def)
next
  case False
  from assms(1) obtain s where "stat fs cs = Inr s"
    by (cases "stat fs cs") (auto simp: exists_def)
  from stat_butlast[OF this assms(2) False] False show ?thesis
    by (auto simp: os_mkdir_def namei_parent_def)
qed

lemma mkdir_parents_existing:
  assumes "is_dir fs (comps q)" and "\<forall>name \<in> set (comps q). normal name"
  shows "mkdir_parents fs q True = (None, fs)"
proof -
  from assms(1) have "exists fs (comps q)"
    by (auto simp: is_dir_def exists_def split: sum.splits)
  from os_mkdir_existing[OF this assms(2)] assms(1) show ?thesis
    by (subst mkdir_parents.simps) simp
qed

lemma create_file_existing:
  assumes v: "validate_path sd fs p = Inr q" and e: "exists fs (comps q)"
      and d: "is_dir fs (comps (parent q))"
  shows "create_file sd fs p c = (Inr (''File '' @ p @ '' already exists''), fs)"
proof -
  from v have "\<forall>name \<in> set (comps q). normal name" by (rule validate_path_normal)
  then have "\<forall>name \<in> set (comps (parent q)). normal name"
    by (auto simp: parent_def dest: in_set_butlastD)
  from mkdir_parents_existing[OF d this] v e show ?thesis
    by (simp add: create_file_def try_except_def)
qed

section \<open>Creating files\<close>

text \<open>
  C4, as stated, fails: for the directory \<open>d\<close> the call returns the very result it
  returns for the existing file \<open>a.txt\<close>, the plain "already exists".
\<close>

theorem directory_reported_as_existing_file:
  "validate_path sandbox fs_link ''d'' = Inr \<lparr> root2 = False, comps = [''sb'', ''d''] \<rparr>
   \<and> is_dir fs_link [''sb'', ''d'']
   \<and> create_file sandbox fs_link ''d'' ''text'' = (Inr ''File d already exists'', fs_link)
   \<and> is_file fs_link [''sb'', ''a.txt'']
   \<and> create_file sandbox fs_link ''a.txt'' ''text''
       = (Inr ''File a.txt already exists'', fs_link)"
proof -
  have a: "validate_path sandbox fs_link ''d'' = Inr \<lparr> root2 = False, comps = [''sb'', ''d''] \<rparr>"
    by code_simp
  have b: "is_dir fs_link [''sb'', ''d'']" by code_simp
  have c: "create_file sandbox fs_link ''d'' ''text'' = (Inr ''File d already exists'', fs_link)"
    by code_simp
  have d: "is_file fs_link [''sb'', ''a.txt'']" by code_simp
  have e: "create_file sandbox fs_link ''a.txt'' ''text''
             = (Inr ''File a.txt already exists'', fs_link)"
    by code_simp
  show ?thesis by (intro conjI a b c d e)
qed

text \<open>
  C4, as amended. When the validated target is an existing directory, \<open>create_file\<close>
  returns \<open>File p already exists\<close>, the result of its one \<open>exists\<close> test, and leaves
  the file tree as it was. This holds of every path that validation returns, also
  of one that \<open>resolve\<close> left unresolved after a symlink loop.
\<close>

theorem create_file_on_directory:
  assumes "validate_path sd fs p = Inr q" and "is_dir fs (comps q)"
  shows "create_file sd fs p c = (Inr (''File '' @ p @ '' already exists''), fs)"
proof -
  from assms(1) have n: "\<forall>name \<in> set (comps q). normal name" by (rule validate_path_normal)
  from assms(2) have e: "exists fs (comps q)"
    by (auto simp: is_dir_def exists_def split: sum.splits)
  have "is_dir fs (comps (parent q))"
  proof (cases "comps q = []")
    case True
    with assms(2) show ?thesis by (simp add: parent_def)
  next
    case False
    from is_dir_butlast[OF e n False] show ?thesis by (simp add: parent_def)
  qed
  with assms(1) e show ?thesis by (rule create_file_existing)
qed

theorem create_file_on_directory_witness:
  "validate_path sandbox fs_loop ''l/../d'' = Inr \<lparr> root2 = False, comps = [''sb'', ''d''] \<rparr>
   \<and> is_dir fs_loop [''sb'', ''d'']
   \<and> create_file sandbox fs_loop ''l/../d'' ''text''
       = (Inr ''File l/../d already exists'', fs_loop)"
proof -
  have a: "validate_path sandbox fs_loop ''l/../d''
             = Inr \<lparr> root2 = False, comps = [''sb'', ''d''] \<rparr>"
    by code_simp
  have b: "is_dir fs_loop (comps \<lparr> root2 = False, comps = [''sb'', ''d''] \<rparr>)" by code_simp
  from create_file_on_directory[OF a b, of "''text''"] a b show ?thesis by simp
qed

section \<open>Changes of the tree\<close>

lemma lstat_Nil: "lstat n [] = Some (st_of n)"
  by (simp add: lstat_def)

lemma lstat_Dir_Cons:
  "lstat (Dir es) (c # cs) = (case map_of es c of None \<Rightarrow> None | Some child \<Rightarrow> lstat child cs)"
  by (simp add: lstat_def split: option.splits)

lemma lstat_File_Cons: "lstat (File t) (c # cs) = None"
  by (simp add: lstat_def)

lemma lstat_Symlink_Cons: "lstat (Symlink t) (c # cs) = None"
  by (simp add: lstat_def)

lemma is_directory_Nil: "is_directory fs [] = (\<exists>es. fs = Dir es)"
  by (cases fs) (auto simp: is_directory_def lstat_def)

lemma is_directory_Cons:
  "is_directory fs (c # cs) =
     (\<exists>es child. fs = Dir es \<and> map_of es c = Some child \<and> is_directory child cs)"
  by (cases fs) (auto simp: is_directory_def lstat_def split: option.splits)

lemma lstat_put_Dir:
  "lstat (put (Dir es) (c # cs) m) (c' # xs) =
     (if c' = c
      then (case map_of es c of
              None \<Rightarrow> (if cs = [] then lstat m xs else None)
            | Some child \<Rightarrow> lstat (put child cs m) xs)
      else lstat (Dir es) (c' # xs))"
  by (auto simp: lstat_Dir_Cons update_conv' split: option.splits)

lemma lstat_put:
  "is_directory fs (butlast r) \<Longrightarrow> r \<noteq> [] \<Longrightarrow>
   lstat (put fs r m) x = (if prefix r x then lstat m (drop (length r) x) else lstat fs x)"
proof (induction r arbitrary: fs x)
  case Nil
  then show ?case by simp
next
  case (Cons c cs)
  show ?case
  proof (cases "cs = []")
    case True
    with Cons.prems obtain es where fs: "fs = Dir es" by (auto simp: is_directory_Nil)
    show ?thesis
    proof (cases x)
      case Nil
      with fs True show ?thesis by (simp add: lstat_Nil)
    next
      case (Cons c' xs)
      have "lstat (put (Dir es) [c] m) (c' # xs) =
              (if c' = c then lstat m xs else lstat (Dir es) (c' # xs))"
        by (simp only: lstat_put_Dir) (simp split: option.splits)
      with fs True Cons show ?thesis by auto
    qed
  next
    case False
    then have b: "butlast (c # cs) = c # butlast cs" by simp
    with Cons.prems obtain es child where fs: "fs = Dir es" and ch: "map_of es c = Some child"
      and d: "is_directory child (butlast cs)"
      by (auto simp: is_directory_Cons)
    note IH = Cons.IH[OF d False]
    show ?thesis
    proof (cases x)
      case Nil
      with fs show ?thesis by (simp add: lstat_Nil)
    next
      case (Cons c' xs)
      have "lstat (put (Dir es) (c # cs) m) (c' # xs) =
              (if c' = c then lstat (put child cs m) xs else lstat (Dir es) (c' # xs))"
        by (simp only: lstat_put_Dir ch option.case)
      with fs Cons ch IH[of xs] show ?thesis by (auto simp: lstat_Dir_Cons)
    qed
  qed
qed

lemma lstat_missing_below:
  assumes "lstat fs r = None" and "prefix r x"
  shows "lstat fs x = None"
proof (rule ccontr)
  assume "lstat fs x \<noteq> None"
  then obtain s where s: "lstat fs x = Some s" by auto
  from assms(2) obtain y where "x = r @ y" by (auto simp: prefix_def)
  with s have "lstat fs r \<noteq> None" by (auto dest: lstat_prefix_some)
  with assms(1) show False by simp
qed

text \<open>A new entry at a place where nothing was changes no entry that was there.\<close>

lemma lstat_put_new:
  assumes "is_directory fs (butlast r)" and "r \<noteq> []" and "lstat fs r = None"
      and "lstat fs x \<noteq> None"
  shows "lstat (put fs r m) x = lstat fs x"
proof -
  from assms(3,4) have "\<not> prefix r x" by (auto dest: lstat_missing_below)
  with assms(1,2) show ?thesis by (simp add: lstat_put)
qed

lemma lstat_put_self:
  assumes "is_directory fs (butlast r)" and "r \<noteq> []"
  shows "lstat (put fs r m) r = Some (st_of m)"
  using assms by (simp add: lstat_put lstat_Nil)

lemma lstat_leaf_below:
  assumes p: "prefix r x" and n: "x \<noteq> r" and m: "m = Dir [] \<or> (\<exists>c. m = File c)"
  shows "lstat m (drop (length r) x) = None"
proof -
  from p n obtain y ys where "x = r @ y # ys"
    by (cases "drop (length r) x") (auto simp: prefix_def)
  then have "drop (length r) x = y # ys" by simp
  with m show ?thesis by (auto simp: lstat_def)
qed

lemma readlink_put_new:
  assumes d: "is_directory fs (butlast r)" and r: "r \<noteq> []" and n: "lstat fs r = None"
      and m: "m = Dir [] \<or> (\<exists>c. m = File c)"
  shows "readlink (put fs r m) = readlink fs"
proof
  fix x
  show "readlink (put fs r m) x = readlink fs x"
  proof (cases "prefix r x")
    case False
    with d r show ?thesis by (simp add: readlink_def lstat_put)
  next
    case True
    with n have a: "lstat fs x = None" by (rule lstat_missing_below)
    have "lstat m (drop (length r) x) = None \<or> lstat m (drop (length r) x) = Some (st_of m)"
    proof (cases "x = r")
      case True
      then show ?thesis by (simp add: lstat_Nil)
    next
      case False
      from lstat_leaf_below[OF True False m] show ?thesis by simp
    qed
    with m True a d r show ?thesis by (auto simp: readlink_def lstat_put)
  qed
qed

lemma realpath_loop_cong:
  "readlink fs' = readlink fs \<Longrightarrow>
   realpath_loop fs' seen path stack = realpath_loop fs seen path stack"
proof (induction fs seen path stack rule: realpath_loop.induct)
  case (1 fs seen path)
  then show ?case by simp
next
  case (2 fs seen path l rest)
  then show ?case by (simp add: fun_upd_def)
next
  case (3 fs seen path name rest)
  then show ?case by (auto simp: fun_upd_def split: option.splits)
qed

lemma os_mkdir_put:
  assumes "os_mkdir fs q = Inr fs'"
  shows "\<exists>r. r \<noteq> [] \<and> is_directory fs (butlast r) \<and> lstat fs r = None \<and> fs' = put fs r (Dir [])"
proof -
  from assms obtain d where d: "is_directory fs d" and n: "lstat fs (d @ [last q]) = None"
    and f: "fs' = put fs (d @ [last q]) (Dir [])"
    by (auto simp: os_mkdir_def namei_parent_def split: if_splits sum.splits option.splits)
  show ?thesis
    by (rule exI[of _ "d @ [last q]"]) (use d n f in simp)
qed

lemma os_mkdir_readlink: "os_mkdir fs q = Inr fs' \<Longrightarrow> readlink fs' = readlink fs"
  by (auto dest!: os_mkdir_put intro: readlink_put_new)

lemma mkdir_final_readlink: "mkdir_final fs q ok = (e, fs') \<Longrightarrow> readlink fs' = readlink fs"
  by (auto simp: mkdir_final_def split: sum.splits errno.splits if_splits
           dest: os_mkdir_readlink)

lemma mkdir_parents_readlink:
  "mkdir_parents fs q ok = (e, fs') \<Longrightarrow> readlink fs' = readlink fs"
proof (induction fs q ok arbitrary: e fs' rule: mkdir_parents.induct)
  case (1 fs q exist_ok)
  show ?case
  proof (cases "os_mkdir fs (comps q)")
    case (Inr fs1)
    with "1.prems" have "fs' = fs1" by (subst (asm) mkdir_parents.simps) simp
    with Inr show ?thesis by (auto dest: os_mkdir_readlink)
  next
    case (Inl a)
    show ?thesis
    proof (cases "a = ENOENT \<and> comps q \<noteq> []")
      case False
      with Inl "1.prems" have "fs' = fs"
        by (subst (asm) mkdir_parents.simps) (auto split: errno.splits if_splits)
      then show ?thesis by simp
    next
      case True
      obtain e1 fs1 where p: "mkdir_parents fs (parent q) True = (e1, fs1)"
        by (cases "mkdir_parents fs (parent q) True") auto
      from True have a: "a = ENOENT" and q: "comps q \<noteq> []" by auto
      from "1.IH"[OF Inl a q p] have r1: "readlink fs1 = readlink fs" .
      show ?thesis
      proof (cases e1)
        case (Some x)
        with Inl a q p "1.prems" have "fs' = fs1"
          by (subst (asm) mkdir_parents.simps) simp
        with r1 show ?thesis by simp
      next
        case None
        with Inl a q p "1.prems" have "mkdir_final fs1 q exist_ok = (e, fs')"
          by (subst (asm) mkdir_parents.simps) simp
        then have "readlink fs' = readlink fs1" by (rule mkdir_final_readlink)
        with r1 show ?thesis by simp
      qed
    qed
  qed
qed

section \<open>The walk that makes a file\<close>

lemma lstat_butlast_exists:
  assumes "is_directory fs cur"
  shows "lstat fs (butlast cur) \<noteq> None"
proof (cases "cur = []")
  case True
  then show ?thesis by (simp add: lstat_Nil)
next
  case False
  then have "butlast cur @ [last cur] = cur" by simp
  with assms have "lstat fs (butlast cur @ [last cur]) = Some Directory"
    by (simp add: is_directory_def)
  then show ?thesis by (rule lstat_prefix_some)
qed

lemma is_directory_butlast:
  assumes "is_directory fs cur"
  shows "is_directory fs (butlast cur)"
proof (cases "cur = []")
  case True
  with assms show ?thesis by simp
next
  case False
  then have "butlast cur @ [last cur] = cur" by simp
  with assms have "lstat fs (butlast cur @ [last cur]) = Some Directory"
    by (simp add: is_directory_def)
  then show ?thesis unfolding is_directory_def by (rule lstat_prefix) simp
qed

text \<open>Where the walk ends at a missing entry, it has made it out in a directory.\<close>

lemma walk_missing_parent:
  "walk fs creat n cur xs = Inr r \<Longrightarrow> lstat fs cur \<noteq> None \<Longrightarrow> lstat fs r = None \<Longrightarrow>
   r \<noteq> [] \<and> is_directory fs (butlast r) \<and> creat"
proof (induction fs creat n cur xs rule: walk.induct)
  case (1 fs creat n cur)
  then show ?case by simp
next
  case (2 fs creat n cur name rest)
  note w = "2.prems"(1)
  have d: "is_directory fs cur"
  proof (rule ccontr)
    assume "\<not> is_directory fs cur"
    with w show False by simp
  qed
  then have dd: "\<not> \<not> is_directory fs cur" by simp
  consider (skip) "name = [] \<or> name = ''.''"
    | (up) "\<not> (name = [] \<or> name = ''.'')" "name = ''..''"
    | (down) "\<not> (name = [] \<or> name = ''.'')" "name \<noteq> ''..''"
    by blast
  then show ?case
  proof cases
    case skip
    with w d have "walk fs creat n cur rest = Inr r" by auto
    from "2.IH"(1)[OF dd skip this "2.prems"(2,3)] show ?thesis .
  next
    case up
    with w d have "walk fs creat n (butlast cur) rest = Inr r" by auto
    from "2.IH"(2)[OF dd up this lstat_butlast_exists[OF d] "2.prems"(3)] show ?thesis .
  next
    case down
    show ?thesis
    proof (cases "lstat fs (cur @ [name])")
      case None
      with w d down have "creat \<and> r = cur @ [name]" by (auto split: if_splits)
      with d show ?thesis by simp
    next
      case (Some x2)
      then have ex: "lstat fs (cur @ [name]) \<noteq> None" by simp
      show ?thesis
      proof (cases x2)
        case (Reg x1)
        with w d down Some have "walk fs creat n (cur @ [name]) rest = Inr r" by auto
        from "2.IH"(3)[OF dd down Some Reg this ex "2.prems"(3)] show ?thesis .
      next
        case Directory
        with w d down Some have "walk fs creat n (cur @ [name]) rest = Inr r" by auto
        from "2.IH"(4)[OF dd down Some Directory this ex "2.prems"(3)] show ?thesis .
      next
        case (Lnk t)
        with w d down Some obtain k where n: "n = Suc k"
          and w': "walk fs creat k (if is_abs t then [] else cur) (split_sep t @ rest) = Inr r"
          by (cases n) auto
        have "lstat fs (if is_abs t then [] else cur) \<noteq> None"
          using "2.prems"(2) by (simp add: lstat_Nil)
        from "2.IH"(5)[OF dd down Some Lnk n w' this "2.prems"(3)] show ?thesis .
      qed
    qed
  qed
qed

text \<open>
  Once a file is put where the making walk ended, the plain walk ends there too.
\<close>

lemma walk_after_put:
  "walk fs creat n cur xs = Inr r \<Longrightarrow> r \<noteq> [] \<Longrightarrow> is_directory fs (butlast r) \<Longrightarrow>
   lstat fs r = None \<Longrightarrow> walk (put fs r (File c)) False n cur xs = Inr r"
proof (induction fs creat n cur xs rule: walk.induct)
  case (1 fs creat n cur)
  then show ?case by simp
next
  case (2 fs creat n cur name rest)
  note w = "2.prems"(1) and r = "2.prems"(2) and p = "2.prems"(3) and m = "2.prems"(4)
  let ?fs = "put fs r (File c)"
  have same: "lstat ?fs x = lstat fs x" if "lstat fs x \<noteq> None" for x
    using p r m that by (rule lstat_put_new)
  have d: "is_directory fs cur"
  proof (rule ccontr)
    assume "\<not> is_directory fs cur"
    with w show False by simp
  qed
  then have dd: "\<not> \<not> is_directory fs cur" by simp
  from d same[of cur] have d': "is_directory ?fs cur" by (simp add: is_directory_def)
  consider (skip) "name = [] \<or> name = ''.''"
    | (up) "\<not> (name = [] \<or> name = ''.'')" "name = ''..''"
    | (down) "\<not> (name = [] \<or> name = ''.'')" "name \<noteq> ''..''"
    by blast
  then show ?case
  proof cases
    case skip
    with w d have "walk fs creat n cur rest = Inr r" by auto
    from "2.IH"(1)[OF dd skip this r p m] d' skip show ?thesis by auto
  next
    case up
    with w d have "walk fs creat n (butlast cur) rest = Inr r" by auto
    from "2.IH"(2)[OF dd up this r p m] d' up show ?thesis by auto
  next
    case down
    show ?thesis
    proof (cases "lstat fs (cur @ [name])")
      case None
      with w d down have e: "rest = [] \<and> r = cur @ [name]" by (auto split: if_splits)
      from p r have "lstat ?fs r = Some (Reg c)" by (simp add: lstat_put_self)
      with e d' down show ?thesis by auto
    next
      case (Some x2)
      with same[of "cur @ [name]"] have s': "lstat ?fs (cur @ [name]) = Some x2" by simp
      show ?thesis
      proof (cases x2)
        case (Reg x1)
        with w d down Some have "walk fs creat n (cur @ [name]) rest = Inr r" by auto
        from "2.IH"(3)[OF dd down Some Reg this r p m] d' down s' Reg show ?thesis by auto
      next
        case Directory
        with w d down Some have "walk fs creat n (cur @ [name]) rest = Inr r" by auto
        from "2.IH"(4)[OF dd down Some Directory this r p m] d' down s' Directory
        show ?thesis by auto
      next
        case (Lnk t)
        with w d down Some obtain k where n: "n = Suc k"
          and w': "walk fs creat k (if is_abs t then [] else cur) (split_sep t @ rest) = Inr r"
          by (cases n) auto
        from "2.IH"(5)[OF dd down Some Lnk n w' r p m] d' down s' Lnk n show ?thesis by auto
      qed
    qed
  qed
qed

text \<open>Where the making walk ends at an entry that is there, the plain walk ends there too.\<close>

lemma walk_creat_existing:
  "walk fs creat n cur xs = Inr r \<Longrightarrow> lstat fs r \<noteq> None \<Longrightarrow>
   walk fs False n cur xs = Inr r"
proof (induction fs creat n cur xs rule: walk.induct)
  case (1 fs creat n cur)
  then show ?case by simp
next
  case (2 fs creat n cur name rest)
  note w = "2.prems"(1) and e = "2.prems"(2)
  have d: "is_directory fs cur"
  proof (rule ccontr)
    assume "\<not> is_directory fs cur"
    with w show False by simp
  qed
  then have dd: "\<not> \<not> is_directory fs cur" by simp
  consider (skip) "name = [] \<or> name = ''.''"
    | (up) "\<not> (name = [] \<or> name = ''.'')" "name = ''..''"
    | (down) "\<not> (name = [] \<or> name = ''.'')" "name \<noteq> ''..''"
    by blast
  then show ?case
  proof cases
    case skip
    with w d have "walk fs creat n cur rest = Inr r" by auto
    from "2.IH"(1)[OF dd skip this e] d skip show ?thesis by auto
  next
    case up
    with w d have "walk fs creat n (butlast cur) rest = Inr r" by auto
    from "2.IH"(2)[OF dd up this e] d up show ?thesis by auto
  next
    case down
    show ?thesis
    proof (cases "lstat fs (cur @ [name])")
      case None
      with w d down have "r = cur @ [name]" by (auto split: if_splits)
      with None e show ?thesis by simp
    next
      case (Some x2)
      show ?thesis
      proof (cases x2)
        case (Reg x1)
        with w d down Some have "walk fs creat n (cur @ [name]) rest = Inr r" by auto
        from "2.IH"(3)[OF dd down Some Reg this e] d down Some Reg show ?thesis by auto
      next
        case Directory
        with w d down Some have "walk fs creat n (cur @ [name]) rest = Inr r" by auto
        from "2.IH"(4)[OF dd down Some Directory this e] d down Some Directory
        show ?thesis by auto
      next
        case (Lnk t)
        with w d down Some obtain k where n: "n = Suc k"
          and w': "walk fs creat k (if is_abs t then [] else cur) (split_sep t @ rest) = Inr r"
          by (cases n) auto
        from "2.IH"(5)[OF dd down Some Lnk n w' e] d down Some Lnk n show ?thesis by auto
      qed
    qed
  qed
qed

section \<open>A file that was created\<close>

lemma stat_not_eloop:
  "walk fs False 40 [] q = Inr r \<Longrightarrow> stat fs q \<noteq> Inl ELOOP"
  by (simp add: stat_def split: option.splits)

lemma resolve_cong:
  assumes "readlink fs' = readlink fs" and "resolve fs x = Inr y"
      and "stat fs' (comps y) \<noteq> Inl ELOOP"
  shows "resolve fs' x = Inr y"
proof -
  from assms(1) have l: "realpath_loop fs' Map.empty [] (map Part (comps x))
                           = realpath_loop fs Map.empty [] (map Part (comps x))"
    by (rule realpath_loop_cong)
  from assms(2) obtain r where r: "realpath_loop fs Map.empty [] (map Part (comps x)) = Inr r"
    by (cases "realpath_loop fs Map.empty [] (map Part (comps x))") (auto simp: resolve_def)
  define p where "p = (case r of Resolved path \<Rightarrow> \<lparr> root2 = False, comps = path \<rparr>
                               | Unresolved s \<Rightarrow> abs_of_string s)"
  from assms(2) r have y: "y = p" and n: "\<not> (\<exists>name \<in> set (comps p). CHR 0x00 \<in> set name)"
    by (auto simp: resolve_def Let_def p_def split: if_splits sum.splits errno.splits)
  from assms(3) y have "stat fs' (comps p) \<noteq> Inl ELOOP" by simp
  with l r n y show ?thesis
    by (auto simp: resolve_def Let_def p_def[symmetric] split: sum.splits errno.splits)
qed

lemma created_file:
  assumes "create_file sd fs p c = (Inr (''Created '' @ p), fs')"
  shows "\<exists>q. validate_path sd fs p = Inr q \<and> validate_path sd fs' p = Inr q
            \<and> comps q \<noteq> [] \<and> stat fs' (comps q) = Inr (Reg c)"
proof -
  from assms obtain q fs1 where v: "validate_path sd fs p = Inr q"
    and mk: "mkdir_parents fs (parent q) True = (None, fs1)"
    and ne: "\<not> exists fs1 (comps q)"
    and wr: "write_text fs1 q c = Inr fs'"
    by (auto simp: create_file_def try_except_def
             split: sum.splits prod.splits option.splits if_splits)
  from wr obtain r where w: "walk fs1 True 40 [] (comps q) = Inr r"
    and f: "fs' = put fs1 r (File c)"
    by (auto simp: write_text_def split: sum.splits option.splits st.splits)
  have m: "lstat fs1 r = None"
  proof (rule ccontr)
    assume e: "lstat fs1 r \<noteq> None"
    with w have "walk fs1 False 40 [] (comps q) = Inr r" by (rule walk_creat_existing)
    with e have "exists fs1 (comps q)" by (auto simp: exists_def stat_def)
    with ne show False by simp
  qed
  have "lstat fs1 [] \<noteq> None" by (simp add: lstat_Nil)
  from walk_missing_parent[OF w this m] have r: "r \<noteq> []" and d: "is_directory fs1 (butlast r)"
    by auto
  from w r have q: "comps q \<noteq> []" by auto
  from walk_after_put[OF w r d m] f have w': "walk fs' False 40 [] (comps q) = Inr r" by simp
  from d r f have "lstat fs' r = Some (Reg c)" by (simp add: lstat_put_self)
  with w' have s: "stat fs' (comps q) = Inr (Reg c)" by (simp add: stat_def)
  from d r m f have "readlink fs' = readlink fs1" by (simp add: readlink_put_new)
  with mkdir_parents_readlink[OF mk] have l: "readlink fs' = readlink fs" by simp
  from v obtain root where pn: "parts (Path (strip p)) \<noteq> []"
    and rq: "resolve fs (joinpath sd (Path (strip p))) = Inr q"
    and rr: "resolve fs sd = Inr root" and rel: "is_relative_to q root"
    by (auto simp: validate_path_def Let_def split: if_splits sum.splits)
  from s have "stat fs' (comps q) \<noteq> Inl ELOOP" by simp
  with l rq have rq': "resolve fs' (joinpath sd (Path (strip p))) = Inr q" by (rule resolve_cong)
  from rel obtain ys where "comps q = comps root @ ys"
    by (auto simp: is_relative_to_def prefix_def)
  with w' obtain d' where "walk fs' False 40 [] (comps root) = Inr d'"
    by (auto dest: walk_append)
  then have "stat fs' (comps root) \<noteq> Inl ELOOP" by (rule stat_not_eloop)
  with l rr have rr': "resolve fs' sd = Inr root" by (rule resolve_cong)
  from pn rq' rr' rel have "validate_path sd fs' p = Inr q"
    by (simp add: validate_path_def Let_def)
  with v q s show ?thesis by blast
qed

text \<open>
  C6. When \<open>create_file\<close> has created the file, a second call with the same path,
  on the tree the first call left, returns "already exists" and leaves that tree as
  it is: the file still holds the first content.
\<close>

theorem create_file_twice:
  assumes "create_file sd fs p c1 = (Inr (''Created '' @ p), fs')"
  shows "create_file sd fs' p c2 = (Inr (''File '' @ p @ '' already exists''), fs')
         \<and> (\<exists>q. validate_path sd fs' p = Inr q \<and> stat fs' (comps q) = Inr (Reg c1))"
proof -
  from created_file[OF assms] obtain q where v: "validate_path sd fs' p = Inr q"
    and q: "comps q \<noteq> []" and s: "stat fs' (comps q) = Inr (Reg c1)"
    by blast
  from s have e: "exists fs' (comps q)" by (simp add: exists_def)
  from v have "\<forall>name \<in> set (comps q). normal name" by (rule validate_path_normal)
  from is_dir_butlast[OF e this q] have "is_dir fs' (comps (parent q))"
    by (simp add: parent_def)
  with v e have "create_file sd fs' p c2 = (Inr (''File '' @ p @ '' already exists''), fs')"
    by (rule create_file_existing)
  with v s show ?thesis by blast
qed

theorem create_file_twice_witness:
  "create_file sandbox fs_one ''n/b.txt'' ''one''
     = (Inr ''Created n/b.txt'',
        Dir [(''sb'', Dir [(''a.txt'', File ''hi''), (''n'', Dir [(''b.txt'', File ''one'')])]),
             (''etc'', Dir [])])
   \<and> create_file sandbox
        (Dir [(''sb'', Dir [(''a.txt'', File ''hi''), (''n'', Dir [(''b.txt'', File ''one'')])]),
              (''etc'', Dir [])]) ''n/b.txt'' ''two''
     = (Inr ''File n/b.txt already exists'',
        Dir [(''sb'', Dir [(''a.txt'', File ''hi''), (''n'', Dir [(''b.txt'', File ''one'')])]),
             (''etc'', Dir [])])"
proof -
  have a: "create_file sandbox fs_one ''n/b.txt'' ''one''
     = (Inr (''Created '' @ ''n/b.txt''),
        Dir [(''sb'', Dir [(''a.txt'', File ''hi''), (''n'', Dir [(''b.txt'', File ''one'')])]),
             (''etc'', Dir [])])"
    by code_simp
  from create_file_twice[OF a, of "''two''"] a show ?thesis by simp
qed

section \<open>Making the directories of a new file\<close>









section \<open>Creating a file and reading it\<close>







end
